theory Spec2Isabelle
  imports Main "HOL-Library.Multiset"
begin

section \<open>Role assignment\<close>

text \<open>
  \<^verbatim>\<open>shuffle\<close> of roomService: a Fisher-Yates loop, \<^verbatim>\<open>i\<close> running from
  \<^verbatim>\<open>a.length - 1\<close> down to 1, each step swapping \<^verbatim>\<open>a[i]\<close> with \<^verbatim>\<open>a[j]\<close>,
  \<^verbatim>\<open>j = Math.floor(Math.random() * (i + 1))\<close>. The random draws are a parameter
  \<open>rnd\<close> (one draw per loop index); \<open>rnd i mod (i + 1)\<close> is the index in \<open>0..i\<close>
  that the floor of the scaled draw yields.
\<close>

fun shuffle_from :: "(nat \<Rightarrow> nat) \<Rightarrow> nat \<Rightarrow> 'a list \<Rightarrow> 'a list" where
  "shuffle_from rnd 0 a = a"
| "shuffle_from rnd (Suc k) a =
     (let i = Suc k; j = rnd i mod (i + 1)
      in shuffle_from rnd k (a[i := a ! j, j := a ! i]))"

definition shuffle :: "(nat \<Rightarrow> nat) \<Rightarrow> 'a list \<Rightarrow> 'a list" where
  "shuffle rnd arr = shuffle_from rnd (length arr - 1) arr"

text \<open>\<^verbatim>\<open>for (let i = 0; i < n; i++) roles.push(x)\<close>\<close>

fun push_times :: "nat \<Rightarrow> 'a \<Rightarrow> 'a list \<Rightarrow> 'a list" where
  "push_times 0 x roles = roles"
| "push_times (Suc n) x roles = push_times n x (roles @ [x])"

text \<open>\<^verbatim>\<open>while (roles.length < count) roles.push("citizen")\<close>\<close>

function fill_citizens :: "nat \<Rightarrow> string list \<Rightarrow> string list" where
  "fill_citizens cnt roles =
     (if length roles < cnt then fill_citizens cnt (roles @ [''citizen'']) else roles)"
  by pat_completeness auto
termination
  by (relation "measure (\<lambda>(cnt, roles). cnt - length roles)") auto

definition mafiaCount :: "nat \<Rightarrow> nat" where
  "mafiaCount cnt =
     (let m = 1;
          m = (if cnt \<ge> 6 then 2 else m);
          m = (if cnt \<ge> 9 then 3 else m)
      in m)"

definition role_list :: "nat \<Rightarrow> string list" where
  "role_list cnt =
     (let roles = [];
          roles = push_times (mafiaCount cnt) ''mafia'' roles;
          roles = (if cnt \<ge> 9 then roles @ [''don''] else roles);
          roles = roles @ [''komissar''];
          roles = roles @ [''doctor'']
      in fill_citizens cnt roles)"

definition buildRoles :: "(nat \<Rightarrow> nat) \<Rightarrow> nat \<Rightarrow> string list" where
  "buildRoles rnd cnt = shuffle rnd (role_list cnt)"

text \<open>A fixed draw sequence for concrete runs: every draw is 0.\<close>

definition rnd0 :: "nat \<Rightarrow> nat" where
  "rnd0 i = 0"


section \<open>Data model\<close>

text \<open>
  The documents of one room in the store: the room document and the documents of its
  \<^verbatim>\<open>players\<close> subcollection, in the order of the \<^verbatim>\<open>createdAt\<close> query the code
  reads them with. Roles, status, phase and winner are the untyped strings of the code.
  Server timestamps (\<^verbatim>\<open>resolvedAt\<close>, \<^verbatim>\<open>updatedAt\<close>, \<^verbatim>\<open>startedAt\<close>), avatars,
  the event log and the chat are left out: no operation below reads them.
\<close>

record checkResult =
  targetId :: string
  isMafia :: bool
  at :: int

record player =
  pid :: string
  nickname :: string
  role :: string
  isAlive :: bool
  isReady :: bool
  isKicked :: bool
  isConnected :: bool
  nightSubmitted :: bool
  voteSubmitted :: bool
  lastCheckResult :: "checkResult option"

record night =
  killTargetId :: "string option"
  killBy :: "string option"
  submittedKill :: bool
  saveTargetId :: "string option"
  saveBy :: "string option"
  submittedSave :: bool
  checkTargetId :: "string option"
  checkBy :: "string option"
  submittedCheck :: bool
  lastKilledPlayerId :: "string option"
  lastSavedPlayerId :: "string option"

record vote =
  votes :: "(string \<times> string) list"
  resolved :: bool
  eliminatedPlayerId :: "string option"

record settings =
  nightSec :: "int option"
  daySec :: "int option"
  voteSec :: "int option"

text \<open>
  \<open>dayCheckResult\<close> is the field \<^verbatim>\<open>day.lastCheckResult\<close> of the room document
  (target id and mafia flag), the only field of \<^verbatim>\<open>day\<close> that any revision writes.
\<close>

record room =
  status :: string
  phase :: string
  dayNumber :: int
  ownerPlayerId :: "string option"
  phaseEndsAtMs :: "int option"
  winner :: "string option"
  settings :: settings
  night :: night
  vote :: vote
  dayCheckResult :: "(string \<times> bool) option"

record db =
  roomDoc :: "room option"
  playerDocs :: "player list"

text \<open>
  The failures of the operations: the three \<^verbatim>\<open>topilmadi\<close> (not found) errors, the two
  already-submitted errors of \<^verbatim>\<open>submitNightAction\<close> and \<^verbatim>\<open>submitVote\<close> (the
  \<^verbatim>\<open>ActionAlreadySubmitted\<close> of the specification), the player-count error of
  \<^verbatim>\<open>startGame\<close> (\<^verbatim>\<open>InvalidPlayerCount\<close>), and the rejection by the store of an
  update of a document that does not exist.
\<close>

datatype error =
    RoomNotFound
  | ActorNotFound
  | VoterNotFound
  | NightAlreadySubmitted
  | VoteAlreadySubmitted
  | TooFewPlayers
  | DocMissing

text \<open>
  An operation is a sequence of awaited writes; when one of them throws, the writes before
  it stay. An outcome therefore carries the store in both cases.
\<close>

datatype outcome = Done db | Failed error db

fun state_of :: "outcome \<Rightarrow> db" where
  "state_of (Done s) = s"
| "state_of (Failed e s) = s"

fun andThen :: "outcome \<Rightarrow> (db \<Rightarrow> outcome) \<Rightarrow> outcome" where
  "andThen (Done s) f = f s"
| "andThen (Failed e s) f = Failed e s"

definition emptyNight :: night where
  "emptyNight = \<lparr>killTargetId = None, killBy = None, submittedKill = False,
     saveTargetId = None, saveBy = None, submittedSave = False,
     checkTargetId = None, checkBy = None, submittedCheck = False,
     lastKilledPlayerId = None, lastSavedPlayerId = None\<rparr>"

definition emptyVote :: vote where
  "emptyVote = \<lparr>votes = [], resolved = False, eliminatedPlayerId = None\<rparr>"

text \<open>JavaScript truthiness of an optional string: defined and not empty.\<close>

fun truthy :: "string option \<Rightarrow> bool" where
  "truthy None = False"
| "truthy (Some x) = (x \<noteq> [])"

subsection \<open>The store\<close>

definition getPlayer :: "string \<Rightarrow> db \<Rightarrow> player option" where
  "getPlayer i s = find (\<lambda>p. pid p = i) (playerDocs s)"

definition setPlayer :: "string \<Rightarrow> (player \<Rightarrow> player) \<Rightarrow> player list \<Rightarrow> player list" where
  "setPlayer i f ps = map (\<lambda>p. if pid p = i then f p else p) ps"

text \<open>\<^verbatim>\<open>updateDoc\<close> on a player document and on the room document.\<close>

definition updatePlayerDoc :: "string \<Rightarrow> (player \<Rightarrow> player) \<Rightarrow> db \<Rightarrow> outcome" where
  "updatePlayerDoc i f s =
     (if i \<in> set (map pid (playerDocs s))
      then Done (s\<lparr>playerDocs := setPlayer i f (playerDocs s)\<rparr>)
      else Failed DocMissing s)"

definition updateRoomDoc :: "(room \<Rightarrow> room) \<Rightarrow> db \<Rightarrow> outcome" where
  "updateRoomDoc g s =
     (case roomDoc s of
        None \<Rightarrow> Failed DocMissing s
      | Some r \<Rightarrow> Done (s\<lparr>roomDoc := Some (g r)\<rparr>))"

text \<open>
  \<^verbatim>\<open>writeBatch\<close>: the updates queued by \<^verbatim>\<open>batch.update\<close>, applied in order by
  \<^verbatim>\<open>batch.commit\<close>, all of them or (when a document is missing) none.
\<close>

datatype batch_write = PlayerWrite string "player \<Rightarrow> player" | RoomWrite "room \<Rightarrow> room"

fun write_ok :: "db \<Rightarrow> batch_write \<Rightarrow> bool" where
  "write_ok s (PlayerWrite i f) = (i \<in> set (map pid (playerDocs s)))"
| "write_ok s (RoomWrite g) = (roomDoc s \<noteq> None)"

fun apply_write :: "batch_write \<Rightarrow> db \<Rightarrow> db" where
  "apply_write (PlayerWrite i f) s = s\<lparr>playerDocs := setPlayer i f (playerDocs s)\<rparr>"
| "apply_write (RoomWrite g) s = s\<lparr>roomDoc := map_option g (roomDoc s)\<rparr>"

definition commit :: "batch_write list \<Rightarrow> db \<Rightarrow> outcome" where
  "commit ws s =
     (if list_all (write_ok s) ws then Done (fold apply_write ws s) else Failed DocMissing s)"

section \<open>Win evaluator\<close>

definition isMafiaRole :: "string \<Rightarrow> bool" where
  "isMafiaRole r = (r = ''mafia'' \<or> r = ''don'')"

definition calcWinner :: "player list \<Rightarrow> string option" where
  "calcWinner players =
     (let alive = filter isAlive players;
          mafiaAlive = int (length (filter (\<lambda>p. isMafiaRole (role p)) alive));
          townAlive = int (length alive) - mafiaAlive
      in if mafiaAlive = 0 then Some ''town''
         else if mafiaAlive \<ge> townAlive then Some ''mafia''
         else None)"

text \<open>
  The evaluator in the words of the specification: \<open>aliveMafia\<close> counts the alive
  players whose role is mafia or don, \<open>aliveTown\<close> is the alive count minus that.
\<close>

definition aliveMafia :: "player list \<Rightarrow> nat" where
  "aliveMafia ps = length (filter (\<lambda>p. isAlive p \<and> (role p = ''mafia'' \<or> role p = ''don'')) ps)"

definition aliveTown :: "player list \<Rightarrow> nat" where
  "aliveTown ps = length (filter isAlive ps) - aliveMafia ps"

definition spec_winner :: "player list \<Rightarrow> string option" where
  "spec_winner ps =
     (if aliveMafia ps = 0 then Some ''town''
      else if aliveMafia ps \<ge> aliveTown ps \<and> aliveMafia ps > 0 then Some ''mafia''
      else None)"


section \<open>Lobby operations\<close>

text \<open>
  \<^verbatim>\<open>addDoc\<close> stores a new document under an id that the store generates; the id is a
  parameter here. \<^verbatim>\<open>createRoom\<close> writes the room document, the owner's player
  document and then \<^verbatim>\<open>ownerPlayerId\<close>.
\<close>

definition newPlayer :: "string \<Rightarrow> string \<Rightarrow> player" where
  "newPlayer i nick = \<lparr>pid = i, nickname = nick, role = ''unknown'', isAlive = True,
     isReady = False, isKicked = False, isConnected = True, nightSubmitted = False,
     voteSubmitted = False, lastCheckResult = None\<rparr>"

definition createRoom :: "string \<Rightarrow> string \<Rightarrow> db" where
  "createRoom newId nick =
     \<lparr>roomDoc = Some \<lparr>status = ''lobby'', phase = ''lobby'', dayNumber = 0,
          ownerPlayerId = Some newId, phaseEndsAtMs = None, winner = None,
          settings = \<lparr>nightSec = Some 60, daySec = Some 60, voteSec = Some 45\<rparr>,
          night = emptyNight, vote = emptyVote, dayCheckResult = None\<rparr>,
      playerDocs = [newPlayer newId nick]\<rparr>"

definition joinRoom :: "string \<Rightarrow> string \<Rightarrow> db \<Rightarrow> db" where
  "joinRoom newId nick s = s\<lparr>playerDocs := playerDocs s @ [newPlayer newId nick]\<rparr>"

definition updatePlayerReady :: "string \<Rightarrow> bool \<Rightarrow> db \<Rightarrow> outcome" where
  "updatePlayerReady i b s = updatePlayerDoc i (\<lambda>q. q\<lparr>isReady := b\<rparr>) s"

definition kickPlayer :: "string \<Rightarrow> db \<Rightarrow> outcome" where
  "kickPlayer i s = updatePlayerDoc i (\<lambda>q. q\<lparr>isKicked := True, isConnected := False\<rparr>) s"

definition setPlayerConnection :: "string \<Rightarrow> bool \<Rightarrow> db \<Rightarrow> outcome" where
  "setPlayerConnection i b s = updatePlayerDoc i (\<lambda>q. q\<lparr>isConnected := b\<rparr>) s"

text \<open>
  \<^verbatim>\<open>updateRoomSettings\<close> writes \<^verbatim>\<open>{ ...prev, ...settings }\<close>: the argument is partial,
  and a field it leaves out keeps the stored value.
\<close>

definition mergeSettings :: "settings \<Rightarrow> settings \<Rightarrow> settings" where
  "mergeSettings prev st =
     \<lparr>nightSec = (case nightSec st of Some d \<Rightarrow> Some d | None \<Rightarrow> nightSec prev),
      daySec = (case daySec st of Some d \<Rightarrow> Some d | None \<Rightarrow> daySec prev),
      voteSec = (case voteSec st of Some d \<Rightarrow> Some d | None \<Rightarrow> voteSec prev)\<rparr>"

definition updateRoomSettings :: "settings \<Rightarrow> db \<Rightarrow> outcome" where
  "updateRoomSettings st s = updateRoomDoc (\<lambda>r. r\<lparr>settings := mergeSettings (settings r) st\<rparr>) s"

section \<open>Starting the game\<close>

definition computeEndsAtMs :: "int \<Rightarrow> int \<Rightarrow> int" where
  "computeEndsAtMs now durationSec = now + durationSec * 1000"

text \<open>
  \<^verbatim>\<open>startGame\<close>: \<open>now\<close> is what \<^verbatim>\<open>Date.now()\<close> returns, \<open>rndRoles\<close> and
  \<open>rndPlayers\<close> are the draws of the two shuffles. \<^verbatim>\<open>roles[idx]\<close> is read for every
  index of the shuffled players; with at least four players both lists have the same
  length, so the pairing by index is \<open>zip\<close>.
\<close>

definition startGame ::
  "int \<Rightarrow> int option \<Rightarrow> (nat \<Rightarrow> nat) \<Rightarrow> (nat \<Rightarrow> nat) \<Rightarrow> db \<Rightarrow> outcome" where
  "startGame now nightDurationSec rndRoles rndPlayers s =
     (let nsec = (case nightDurationSec of
                    Some d \<Rightarrow> d
                  | None \<Rightarrow> (case roomDoc s of
                               None \<Rightarrow> 60
                             | Some room \<Rightarrow> (case nightSec (settings room) of
                                               Some d \<Rightarrow> d | None \<Rightarrow> 60)));
          players = playerDocs s
      in if length players < 4 then Failed TooFewPlayers s
         else
          (let roles = buildRoles rndRoles (length players);
               shuffledPlayers = shuffle rndPlayers players
           in commit
                (map (\<lambda>(p, r). PlayerWrite (pid p)
                        (\<lambda>q. q\<lparr>role := r, isAlive := True, isReady := False, isKicked := False,
                                nightSubmitted := False, voteSubmitted := False,
                                lastCheckResult := None\<rparr>))
                     (zip shuffledPlayers roles)
                 @ [RoomWrite (\<lambda>r. r\<lparr>status := ''playing'', phase := ''night'',
                       dayNumber := 0, night := emptyNight, dayCheckResult := None,
                       vote := emptyVote, winner := None,
                       phaseEndsAtMs := Some (computeEndsAtMs now nsec)\<rparr>)])
                s))"

section \<open>Night\<close>

text \<open>
  \<^verbatim>\<open>submitNightAction\<close> (the revision with the \<^verbatim>\<open>nightSubmitted\<close> lock): the actor
  document is read first; the room update of the role follows, then the lock.
\<close>

definition submitNightAction :: "string \<Rightarrow> string \<Rightarrow> string \<Rightarrow> db \<Rightarrow> outcome" where
  "submitNightAction rl actorPlayerId targetPlayerId s =
     (case getPlayer actorPlayerId s of
        None \<Rightarrow> Failed ActorNotFound s
      | Some actor \<Rightarrow>
          if nightSubmitted actor then Failed NightAlreadySubmitted s
          else
            andThen (if rl = ''mafia'' \<or> rl = ''don''
                     then updateRoomDoc (\<lambda>r. r\<lparr>night := (night r)\<lparr>killTargetId := Some targetPlayerId,
                             killBy := Some actorPlayerId, submittedKill := True\<rparr>\<rparr>) s
                     else Done s)
            (\<lambda>s. andThen (if rl = ''doctor''
                     then updateRoomDoc (\<lambda>r. r\<lparr>night := (night r)\<lparr>saveTargetId := Some targetPlayerId,
                             saveBy := Some actorPlayerId, submittedSave := True\<rparr>\<rparr>) s
                     else Done s)
            (\<lambda>s. andThen (if rl = ''komissar''
                     then updateRoomDoc (\<lambda>r. r\<lparr>night := (night r)\<lparr>checkTargetId := Some targetPlayerId,
                             checkBy := Some actorPlayerId, submittedCheck := True\<rparr>\<rparr>) s
                     else Done s)
            (\<lambda>s. updatePlayerDoc actorPlayerId (\<lambda>q. q\<lparr>nightSubmitted := True\<rparr>) s))))"

text \<open>
  The same function as stored in \<^verbatim>\<open>src/firebase/roomService.ts\<close>. That revision has
  no \<^verbatim>\<open>nightSubmitted\<close> flag at all: it neither reads the actor nor writes a lock.
\<close>

definition submitNightAction_roomService :: "string \<Rightarrow> string \<Rightarrow> string \<Rightarrow> db \<Rightarrow> outcome" where
  "submitNightAction_roomService rl actorPlayerId targetPlayerId s =
     andThen (if rl = ''mafia'' \<or> rl = ''don''
              then updateRoomDoc (\<lambda>r. r\<lparr>night := (night r)\<lparr>killTargetId := Some targetPlayerId,
                      killBy := Some actorPlayerId, submittedKill := True\<rparr>\<rparr>) s
              else Done s)
     (\<lambda>s. andThen (if rl = ''doctor''
              then updateRoomDoc (\<lambda>r. r\<lparr>night := (night r)\<lparr>saveTargetId := Some targetPlayerId,
                      saveBy := Some actorPlayerId, submittedSave := True\<rparr>\<rparr>) s
              else Done s)
     (\<lambda>s. if rl = ''komissar''
              then updateRoomDoc (\<lambda>r. r\<lparr>night := (night r)\<lparr>checkTargetId := Some targetPlayerId,
                      checkBy := Some actorPlayerId, submittedCheck := True\<rparr>\<rparr>) s
              else Done s))"

text \<open>
  \<^verbatim>\<open>killedPlayerId\<close> of \<^verbatim>\<open>resolveNight\<close>:
  \<^verbatim>\<open>if (killTargetId && killTargetId !== saveTargetId) killedPlayerId = killTargetId\<close>.
\<close>

definition killedPlayerId :: "night \<Rightarrow> string option" where
  "killedPlayerId n =
     (if truthy (killTargetId n) \<and> killTargetId n \<noteq> saveTargetId n then killTargetId n else None)"

text \<open>\<^verbatim>\<open>if (id) batch.update(doc(..., id), { isAlive: false })\<close>\<close>

fun markDead :: "string option \<Rightarrow> batch_write list" where
  "markDead None = []"
| "markDead (Some i) = (if i \<noteq> [] then [PlayerWrite i (\<lambda>q. q\<lparr>isAlive := False\<rparr>)] else [])"

text \<open>\<^verbatim>\<open>players.map((p) => (p.id === id ? { ...p, isAlive: false } : p))\<close>\<close>

definition playersAfter :: "string option \<Rightarrow> player list \<Rightarrow> player list" where
  "playersAfter i players = map (\<lambda>p. if Some (pid p) = i then p\<lparr>isAlive := False\<rparr> else p) players"

text \<open>The komissar's result, written by \<^verbatim>\<open>updateDoc\<close> before the batch is built.\<close>

definition writeCheckResult :: "int \<Rightarrow> night \<Rightarrow> player list \<Rightarrow> db \<Rightarrow> outcome" where
  "writeCheckResult now n players s =
     (case (checkTargetId n, checkBy n) of
        (Some ct, Some cb) \<Rightarrow>
          if ct \<noteq> [] \<and> cb \<noteq> [] then
            (case find (\<lambda>p. pid p = ct) players of
               Some target \<Rightarrow>
                 updatePlayerDoc cb
                   (\<lambda>q. q\<lparr>lastCheckResult :=
                       Some \<lparr>targetId = ct, isMafia = isMafiaRole (role target), at = now\<rparr>\<rparr>) s
             | None \<Rightarrow> Done s)
          else Done s
      | _ \<Rightarrow> Done s)"

definition resolveNight :: "int \<Rightarrow> int option \<Rightarrow> db \<Rightarrow> outcome" where
  "resolveNight now dayDurationSec s =
     (case roomDoc s of
        None \<Rightarrow> Failed RoomNotFound s
      | Some room \<Rightarrow>
         (let dsec = (case dayDurationSec of
                        Some d \<Rightarrow> d
                      | None \<Rightarrow> (case daySec (settings room) of Some d \<Rightarrow> d | None \<Rightarrow> 60));
              n = night room;
              players = playerDocs s
          in andThen (writeCheckResult now n players s)
              (\<lambda>s1.
                 let killed = killedPlayerId n;
                     resolvedNight = emptyNight\<lparr>lastKilledPlayerId := killed,
                                       lastSavedPlayerId := saveTargetId n\<rparr>
                 in commit
                      (markDead killed
                       @ map (\<lambda>p. PlayerWrite (pid p) (\<lambda>q. q\<lparr>nightSubmitted := False\<rparr>)) players
                       @ [RoomWrite
                            (case calcWinner (playersAfter killed players) of
                               Some w \<Rightarrow>
                                 (\<lambda>r. r\<lparr>status := ''ended'', winner := Some w, phase := ''ended'',
                                        phaseEndsAtMs := None, night := resolvedNight,
                                        dayCheckResult := None, vote := emptyVote\<rparr>)
                             | None \<Rightarrow>
                                 (\<lambda>r. r\<lparr>phase := ''day'',
                                        phaseEndsAtMs := Some (computeEndsAtMs now dsec),
                                        dayNumber := dayNumber room + 1, night := resolvedNight,
                                        dayCheckResult := None, vote := emptyVote\<rparr>))])
                      s1)))"

text \<open>
  \<^verbatim>\<open>resolveNight\<close> as stored in \<^verbatim>\<open>src/firebase/roomService.ts\<close>: the check result
  goes into the room document (\<^verbatim>\<open>"day.lastCheckResult": checkResult\<close>), the duration
  defaults to 60, no submission flag is reset.
\<close>

definition checkResult_roomService :: "night \<Rightarrow> player list \<Rightarrow> (string \<times> bool) option" where
  "checkResult_roomService n players =
     (case checkTargetId n of
        None \<Rightarrow> None
      | Some ct \<Rightarrow>
          if ct \<noteq> [] then
            (case find (\<lambda>p. pid p = ct) players of
               Some target \<Rightarrow> Some (ct, isMafiaRole (role target))
             | None \<Rightarrow> None)
          else None)"

definition resolveNight_roomService :: "int \<Rightarrow> int option \<Rightarrow> db \<Rightarrow> outcome" where
  "resolveNight_roomService now dayDurationSec s =
     (case roomDoc s of
        None \<Rightarrow> Failed RoomNotFound s
      | Some room \<Rightarrow>
         (let dsec = (case dayDurationSec of Some d \<Rightarrow> d | None \<Rightarrow> 60);
              n = night room;
              players = playerDocs s;
              checkResult = checkResult_roomService n players;
              killed = killedPlayerId n;
              resolvedNight = emptyNight\<lparr>lastKilledPlayerId := killed,
                                lastSavedPlayerId := saveTargetId n\<rparr>
          in commit
               (markDead killed
                @ [RoomWrite
                     (case calcWinner (playersAfter killed players) of
                        Some w \<Rightarrow>
                          (\<lambda>r. r\<lparr>status := ''ended'', winner := Some w, phase := ''ended'',
                                 phaseEndsAtMs := None, dayCheckResult := checkResult,
                                 night := resolvedNight\<rparr>)
                      | None \<Rightarrow>
                          (\<lambda>r. r\<lparr>phase := ''day'',
                                 phaseEndsAtMs := Some (computeEndsAtMs now dsec),
                                 dayNumber := dayNumber room + 1,
                                 dayCheckResult := checkResult,
                                 night := resolvedNight, vote := emptyVote\<rparr>))])
               s))"


section \<open>Vote\<close>

definition startVote :: "int \<Rightarrow> int option \<Rightarrow> db \<Rightarrow> outcome" where
  "startVote now voteDurationSec s =
     (let vsec = (case voteDurationSec of
                    Some d \<Rightarrow> d
                  | None \<Rightarrow> (case roomDoc s of
                               None \<Rightarrow> 45
                             | Some room \<Rightarrow> (case voteSec (settings room) of
                                               Some d \<Rightarrow> d | None \<Rightarrow> 45)))
      in commit
           (map (\<lambda>p. PlayerWrite (pid p) (\<lambda>q. q\<lparr>voteSubmitted := False\<rparr>)) (playerDocs s)
            @ [RoomWrite (\<lambda>r. r\<lparr>phase := ''vote'',
                  phaseEndsAtMs := Some (computeEndsAtMs now vsec),
                  vote := \<lparr>votes = [], resolved = False, eliminatedPlayerId = None\<rparr>\<rparr>)])
           s)"

text \<open>
  A JavaScript object as the list of its entries in the order \<^verbatim>\<open>Object.entries\<close>
  yields them: assigning to a key that is present replaces its value in place, a new key
  goes to the end. (The engine lists keys that are array indices first; the result of
  the tally below does not depend on the order of the entries, see \<open>pick_max_order\<close>.)
\<close>

fun obj_set :: "string \<Rightarrow> 'v \<Rightarrow> (string \<times> 'v) list \<Rightarrow> (string \<times> 'v) list" where
  "obj_set k v [] = [(k, v)]"
| "obj_set k v ((k', v') # rest) = (if k' = k then (k, v) # rest else (k', v') # obj_set k v rest)"

text \<open>\<^verbatim>\<open>tally[targetId] || 0\<close>\<close>

definition tally_get :: "(string \<times> nat) list \<Rightarrow> string \<Rightarrow> nat" where
  "tally_get tally k = (case map_of tally k of None \<Rightarrow> 0 | Some c \<Rightarrow> c)"

definition submitVote :: "string \<Rightarrow> string \<Rightarrow> db \<Rightarrow> outcome" where
  "submitVote voterPlayerId targetPlayerId s =
     (case getPlayer voterPlayerId s of
        None \<Rightarrow> Failed VoterNotFound s
      | Some voter \<Rightarrow>
          if voteSubmitted voter then Failed VoteAlreadySubmitted s
          else
            andThen (updateRoomDoc
                       (\<lambda>r. r\<lparr>vote := (vote r)\<lparr>votes := obj_set voterPlayerId targetPlayerId
                                                           (votes (vote r))\<rparr>\<rparr>) s)
              (\<lambda>s. updatePlayerDoc voterPlayerId (\<lambda>q. q\<lparr>voteSubmitted := True\<rparr>) s))"

text \<open>The first loop of \<^verbatim>\<open>resolveVote\<close>, over the entries of \<^verbatim>\<open>votesObj\<close>.\<close>

fun tally_votes ::
  "string list \<Rightarrow> (string \<times> string) list \<Rightarrow> (string \<times> nat) list \<Rightarrow> (string \<times> nat) list" where
  "tally_votes aliveIds [] tally = tally"
| "tally_votes aliveIds ((voter, target) # rest) tally =
     (if voter \<notin> set aliveIds then tally_votes aliveIds rest tally
      else if target \<notin> set aliveIds then tally_votes aliveIds rest tally
      else tally_votes aliveIds rest (obj_set target (tally_get tally target + 1) tally))"

text \<open>
  The second loop, over the entries of \<^verbatim>\<open>tally\<close>; the state is
  \<^verbatim>\<open>(eliminatedId, max, tie)\<close>.
\<close>

fun pick_max ::
  "(string \<times> nat) list \<Rightarrow> string option \<times> nat \<times> bool \<Rightarrow> string option \<times> nat \<times> bool" where
  "pick_max [] st = st"
| "pick_max ((target, c) # rest) (eliminatedId, mx, tie) =
     (if c > mx then pick_max rest (Some target, c, False)
      else if c = mx \<and> c \<noteq> 0 then pick_max rest (eliminatedId, mx, True)
      else pick_max rest (eliminatedId, mx, tie))"

definition aliveIds :: "player list \<Rightarrow> string list" where
  "aliveIds players = map pid (filter isAlive players)"

text \<open>\<^verbatim>\<open>eliminatedId\<close> after \<^verbatim>\<open>if (tie) eliminatedId = null\<close>.\<close>

definition eliminatedId :: "player list \<Rightarrow> (string \<times> string) list \<Rightarrow> string option" where
  "eliminatedId players votesObj =
     (case pick_max (tally_votes (aliveIds players) votesObj []) (None, 0, False) of
        (e, mx, tie) \<Rightarrow> if tie then None else e)"

definition resolveVote :: "int \<Rightarrow> int option \<Rightarrow> db \<Rightarrow> outcome" where
  "resolveVote now nightDurationSec s =
     (case roomDoc s of
        None \<Rightarrow> Failed RoomNotFound s
      | Some room \<Rightarrow>
         (let nsec = (case nightDurationSec of
                        Some d \<Rightarrow> d
                      | None \<Rightarrow> (case nightSec (settings room) of Some d \<Rightarrow> d | None \<Rightarrow> 60));
              players = playerDocs s;
              eliminated = eliminatedId players (votes (vote room))
          in commit
               (markDead eliminated
                @ map (\<lambda>p. PlayerWrite (pid p) (\<lambda>q. q\<lparr>voteSubmitted := False\<rparr>)) players
                @ [RoomWrite
                     (case calcWinner (playersAfter eliminated players) of
                        Some w \<Rightarrow>
                          (\<lambda>r. r\<lparr>status := ''ended'', winner := Some w, phase := ''ended'',
                                 phaseEndsAtMs := None,
                                 vote := (vote r)\<lparr>eliminatedPlayerId := eliminated,
                                                  resolved := True\<rparr>,
                                 night := emptyNight\<rparr>)
                      | None \<Rightarrow>
                          (\<lambda>r. r\<lparr>phase := ''night'',
                                 phaseEndsAtMs := Some (computeEndsAtMs now nsec),
                                 night := emptyNight,
                                 vote := (vote r)\<lparr>eliminatedPlayerId := eliminated,
                                                  resolved := True\<rparr>\<rparr>))])
               s))"

text \<open>
  The tally in the words of the specification: the votes whose voter and target are both
  alive, and for a target the number of those votes.
\<close>

definition validVotes :: "player list \<Rightarrow> (string \<times> string) list \<Rightarrow> (string \<times> string) list" where
  "validVotes players votesObj =
     filter (\<lambda>(v, t). v \<in> set (aliveIds players) \<and> t \<in> set (aliveIds players)) votesObj"

definition votesFor :: "player list \<Rightarrow> (string \<times> string) list \<Rightarrow> string \<Rightarrow> nat" where
  "votesFor players votesObj t = length (filter (\<lambda>(v, t'). t' = t) (validVotes players votesObj))"

section \<open>The host's timer\<close>

text \<open>
  The \<^verbatim>\<open>tick\<close> of the Room page. A client holds its player id, the room snapshot the
  listener delivered last (\<^verbatim>\<open>room\<close>) and \<^verbatim>\<open>autoLockRef\<close>. The lock string
  \<^verbatim>\<open>done-<phase>-<phaseEndsAtMs>\<close> is the pair of phase and deadline here, the empty
  string is \<open>None\<close>. An error of the resolution is caught and the lock released. The
  durations are read from the settings of the snapshot. (The \<^verbatim>\<open>addEvent\<close> call that
  follows each commit writes to the event log only and is not part of the model.)
\<close>

record client =
  playerId :: "string option"
  view :: "room option"
  autoLock :: "(string \<times> int) option"

definition isHost :: "client \<Rightarrow> bool" where
  "isHost c =
     (case (view c, playerId c) of
        (Some room, Some i) \<Rightarrow> i \<noteq> [] \<and> ownerPlayerId room = Some i
      | _ \<Rightarrow> False)"

definition tick :: "int \<Rightarrow> client \<Rightarrow> db \<Rightarrow> client \<times> outcome" where
  "tick now c s =
     (if \<not> isHost c then (c, Done s)
      else case view c of
        None \<Rightarrow> (c, Done s)
      | Some room \<Rightarrow>
          if status room \<noteq> ''playing'' then (c, Done s)
          else (case phaseEndsAtMs room of
             None \<Rightarrow> (c, Done s)
           | Some ends \<Rightarrow>
               if ends = 0 then (c, Done s)
               else if autoLock c = Some (phase room, ends) then (c, Done s)
               else if \<not> (now \<ge> ends) then (c, Done s)
               else
                 (let c1 = c\<lparr>autoLock := Some (phase room, ends)\<rparr>;
                      NIGHT_SEC = (case nightSec (settings room) of Some d \<Rightarrow> d | None \<Rightarrow> 60);
                      DAY_SEC = (case daySec (settings room) of Some d \<Rightarrow> d | None \<Rightarrow> 60);
                      VOTE_SEC = (case voteSec (settings room) of Some d \<Rightarrow> d | None \<Rightarrow> 45);
                      res = (if phase room = ''night'' then resolveNight now (Some DAY_SEC) s
                             else if phase room = ''day'' then startVote now (Some VOTE_SEC) s
                             else if phase room = ''vote'' then resolveVote now (Some NIGHT_SEC) s
                             else Done s)
                  in case res of
                       Done s' \<Rightarrow> (c1, Done s')
                     | Failed e s' \<Rightarrow> (c1\<lparr>autoLock := None\<rparr>, Failed e s'))))"

section \<open>Runs\<close>

text \<open>
  The operations a client can invoke on a room, and the store after a sequence of them.
  A join carries the id the store generates, which is never empty and never in use.
\<close>

datatype op =
    Join string string
  | SetReady string bool
  | Kick string
  | SetConnection string bool
  | UpdateSettings settings
  | StartGame int "int option" "nat \<Rightarrow> nat" "nat \<Rightarrow> nat"
  | SubmitNight string string string
  | ResolveNight int "int option"
  | StartVote int "int option"
  | SubmitVote string string
  | ResolveVote int "int option"

fun run_op :: "op \<Rightarrow> db \<Rightarrow> outcome" where
  "run_op (Join i nick) s =
     (if i \<noteq> [] \<and> i \<notin> set (map pid (playerDocs s)) then Done (joinRoom i nick s) else Done s)"
| "run_op (SetReady i b) s = updatePlayerReady i b s"
| "run_op (Kick i) s = kickPlayer i s"
| "run_op (SetConnection i b) s = setPlayerConnection i b s"
| "run_op (UpdateSettings st) s = updateRoomSettings st s"
| "run_op (StartGame now d rndRoles rndPlayers) s = startGame now d rndRoles rndPlayers s"
| "run_op (SubmitNight rl a t) s = submitNightAction rl a t s"
| "run_op (ResolveNight now d) s = resolveNight now d s"
| "run_op (StartVote now d) s = startVote now d s"
| "run_op (SubmitVote v t) s = submitVote v t s"
| "run_op (ResolveVote now d) s = resolveVote now d s"

definition run :: "op list \<Rightarrow> db \<Rightarrow> db" where
  "run ops s = fold (\<lambda>x s. state_of (run_op x s)) ops s"

section \<open>Concrete games\<close>

text \<open>
  A room of five players, started with every shuffle draw 0, and the states of one night
  and one vote in it. The owner \<open>p1\<close> gets the mafia role, \<open>p2\<close> is the komissar,
  \<open>p3\<close> the doctor, \<open>p4\<close> and \<open>p5\<close> are citizens.
\<close>

definition lobby5 :: db where
  "lobby5 = run [Join ''p2'' ''B'', Join ''p3'' ''C'', Join ''p4'' ''D'', Join ''p5'' ''E'',
                 SetReady ''p1'' True, SetReady ''p2'' True, SetReady ''p3'' True,
                 SetReady ''p4'' True, SetReady ''p5'' True]
                (createRoom ''p1'' ''A'')"

definition night5 :: db where
  "night5 = run [StartGame 0 None rnd0 rnd0] lobby5"

text \<open>The mafia targets \<open>p3\<close>, the doctor saves \<open>p4\<close>, the komissar checks \<open>p1\<close>.\<close>

definition night5B :: db where
  "night5B = run [SubmitNight ''mafia'' ''p1'' ''p3'', SubmitNight ''doctor'' ''p3'' ''p4'',
                  SubmitNight ''komissar'' ''p2'' ''p1''] night5"

definition day5 :: db where
  "day5 = run [ResolveNight 60000 None] night5B"

text \<open>
  The vote of that day: \<open>p2\<close> and \<open>p4\<close> vote for \<open>p1\<close>, \<open>p1\<close> votes for \<open>p2\<close>, and
  \<open>p3\<close>, who died in the night, votes for \<open>p2\<close> as well.
\<close>

definition vote5 :: db where
  "vote5 = run [StartVote 120000 None, SubmitVote ''p2'' ''p1'', SubmitVote ''p4'' ''p1'',
                SubmitVote ''p1'' ''p2''] day5"

definition vote5D :: db where
  "vote5D = run [SubmitVote ''p3'' ''p2''] vote5"

text \<open>
  A room of four players (\<open>p1\<close> mafia, \<open>p2\<close> komissar, \<open>p3\<close> doctor, \<open>p4\<close>
  citizen): the mafia kills \<open>p4\<close> in the first night and alone votes \<open>p2\<close> out the
  next day, which ends the game with one mafia against one town player.
\<close>

definition ended4 :: db where
  "ended4 = run [Join ''p2'' ''B'', Join ''p3'' ''C'', Join ''p4'' ''D'',
                 SetReady ''p1'' True, SetReady ''p2'' True, SetReady ''p3'' True,
                 SetReady ''p4'' True,
                 StartGame 0 None rnd0 rnd0,
                 SubmitNight ''mafia'' ''p1'' ''p4'', ResolveNight 60000 None,
                 StartVote 120000 None, SubmitVote ''p1'' ''p2'', ResolveVote 165000 None]
                (createRoom ''p1'' ''A'')"

text \<open>
  Two tabs of the owner \<open>p1\<close> in the night of the five-player game, both holding the
  snapshot of that night, each with its own, empty lock.
\<close>

definition tabA :: client where
  "tabA = \<lparr>playerId = Some ''p1'', view = roomDoc night5B, autoLock = None\<rparr>"

definition tabB :: client where
  "tabB = \<lparr>playerId = Some ''p1'', view = roomDoc night5B, autoLock = None\<rparr>"

text \<open>
  The invariant that ties winner, status and phase together: a winner is recorded exactly
  in an ended room, and phase \<open>ended\<close> occurs only there, without a deadline.
\<close>

definition ended_consistent :: "room \<Rightarrow> bool" where
  "ended_consistent r =
     ((winner r \<noteq> None) = (status r = ''ended'')
      \<and> (phase r \<noteq> ''ended'' \<or> (status r = ''ended'' \<and> phaseEndsAtMs r = None)))"

text \<open>A lobby of nine players.\<close>

definition lobby9 :: db where
  "lobby9 = run [Join ''p2'' ''B'', Join ''p3'' ''C'', Join ''p4'' ''D'', Join ''p5'' ''E'',
                 Join ''p6'' ''F'', Join ''p7'' ''G'', Join ''p8'' ''H'', Join ''p9'' ''I'']
                (createRoom ''p1'' ''A'')"

section \<open>Properties\<close>

subsection \<open>Properties of the shuffle and of the role list\<close>

lemma length_shuffle_from: "length (shuffle_from rnd k a) = length a"
  by (induction k arbitrary: a) (simp_all add: Let_def)

lemma mset_shuffle_from: "k < length a \<or> k = 0 \<Longrightarrow> mset (shuffle_from rnd k a) = mset a"
proof (induction k arbitrary: a)
  case 0
  then show ?case by simp
next
  case (Suc k)
  then have i: "Suc k < length a" by simp
  have j: "rnd (Suc k) mod (Suc k + 1) < length a"
  proof -
    have "rnd (Suc k) mod (Suc k + 1) < Suc k + 1" by (rule mod_less_divisor) simp
    with i show ?thesis by linarith
  qed
  have sw: "mset (a[Suc k := a ! (rnd (Suc k) mod (Suc k + 1)),
                   rnd (Suc k) mod (Suc k + 1) := a ! Suc k]) = mset a"
    using mset_swap [OF j i] .
  have "k < length (a[Suc k := a ! (rnd (Suc k) mod (Suc k + 1)),
                   rnd (Suc k) mod (Suc k + 1) := a ! Suc k])"
    using i by simp
  with Suc.IH sw show ?case by (simp add: Let_def)
qed

lemma mset_shuffle: "mset (shuffle rnd a) = mset a"
  unfolding shuffle_def by (rule mset_shuffle_from) (cases a, simp_all)

lemma length_shuffle: "length (shuffle rnd a) = length a"
  unfolding shuffle_def by (rule length_shuffle_from)

lemma push_times_replicate: "push_times n x roles = roles @ replicate n x"
  by (induction n arbitrary: roles) (simp_all add: replicate_app_Cons_same)

lemma fill_citizens_replicate:
  "fill_citizens cnt roles = roles @ replicate (cnt - length roles) ''citizen''"
proof (induction cnt roles rule: fill_citizens.induct)
  case (1 cnt roles)
  show ?case
  proof (cases "length roles < cnt")
    case True
    then have "cnt - length roles = Suc (cnt - length (roles @ [''citizen'']))" by simp
    with True "1" show ?thesis
      by (subst fill_citizens.simps) (simp del: fill_citizens.simps)
  next
    case False
    then show ?thesis by (subst fill_citizens.simps) simp
  qed
qed

lemma role_list_eq:
  "role_list N = replicate (mafiaCount N) ''mafia'' @ (if 9 \<le> N then [''don''] else [])
     @ [''komissar'', ''doctor'']
     @ replicate (N - (mafiaCount N + (if 9 \<le> N then 1 else 0) + 2)) ''citizen''"
  by (simp add: role_list_def Let_def push_times_replicate fill_citizens_replicate
      del: fill_citizens.simps)

lemma mafiaCount_cases:
  "mafiaCount N = (if N < 6 then 1 else if N < 9 then 2 else 3)"
  by (simp add: mafiaCount_def Let_def)

lemma mset_buildRoles: "mset (buildRoles rnd N) = mset (role_list N)"
  by (simp add: buildRoles_def mset_shuffle)

lemma length_role_list: "3 \<le> N \<Longrightarrow> length (role_list N) = N"
  by (simp add: role_list_eq mafiaCount_cases)

lemma length_buildRoles: "3 \<le> N \<Longrightarrow> length (buildRoles rnd N) = N"
  by (simp add: buildRoles_def length_shuffle length_role_list)

text \<open>
  Claim C4. For every player count \<open>N \<ge> 4\<close> and every outcome of the shuffle,
  \<open>buildRoles\<close> returns exactly \<open>N\<close> roles: 1, 2 or 3 \<open>mafia\<close> for \<open>N < 6\<close>,
  \<open>6 \<le> N < 9\<close>, \<open>N \<ge> 9\<close>; one \<open>don\<close> exactly when \<open>N \<ge> 9\<close>; one \<open>komissar\<close>;
  one \<open>doctor\<close>; every other slot \<open>citizen\<close>.
\<close>

theorem buildRoles_policy:
  "4 \<le> N \<Longrightarrow>
   length (buildRoles rnd N) = N \<and>
   mset (buildRoles rnd N) =
     replicate_mset (if N < 6 then 1 else if N < 9 then 2 else 3) ''mafia''
     + replicate_mset (if 9 \<le> N then 1 else 0) ''don''
     + {#''komissar''#} + {#''doctor''#}
     + replicate_mset
         (N - ((if N < 6 then 1 else if N < 9 then 2 else 3) + (if 9 \<le> N then 1 else 0) + 2))
         ''citizen''"
  by (simp add: length_buildRoles mset_buildRoles role_list_eq mafiaCount_cases)

theorem buildRoles_policy_witness:
  "(4::nat) \<le> 7 \<and> length (buildRoles rnd0 7) = 7 \<and>
   mset (buildRoles rnd0 7) =
     {#''mafia'', ''mafia'', ''komissar'', ''doctor'', ''citizen'', ''citizen'', ''citizen''#}"
  using buildRoles_policy [of 7 rnd0] by (simp add: numeral_eq_Suc)

subsection \<open>The win evaluator\<close>

lemma aliveMafia_le: "aliveMafia ps \<le> length (filter isAlive ps)"
proof -
  have "filter (\<lambda>p. isAlive p \<and> (role p = ''mafia'' \<or> role p = ''don'')) ps
        = filter (\<lambda>p. role p = ''mafia'' \<or> role p = ''don'') (filter isAlive ps)"
    by (simp add: conj_commute)
  then show ?thesis by (simp add: aliveMafia_def del: filter_filter)
qed

lemma aliveMafia_filter:
  "length (filter (\<lambda>p. isMafiaRole (role p)) (filter isAlive ps)) = aliveMafia ps"
  by (simp add: aliveMafia_def isMafiaRole_def conj_commute)

lemma calcWinner_counts:
  "calcWinner ps =
     (if int (aliveMafia ps) = 0 then Some ''town''
      else if int (aliveMafia ps) \<ge> int (length (filter isAlive ps)) - int (aliveMafia ps)
      then Some ''mafia'' else None)"
  by (simp only: calcWinner_def Let_def aliveMafia_filter)

text \<open>
  Claim C6. For every roster \<open>calcWinner\<close> is the evaluator of the specification:
  with \<open>aliveMafia\<close> the number of alive players of role mafia or don and \<open>aliveTown\<close>
  the alive count minus \<open>aliveMafia\<close> (the two add up to the alive count), it returns
  town when \<open>aliveMafia = 0\<close>, mafia when \<open>0 < aliveMafia\<close> and
  \<open>aliveTown \<le> aliveMafia\<close> (a tie included), and no winner otherwise.
\<close>

theorem calcWinner_spec:
  "calcWinner ps = spec_winner ps \<and> aliveMafia ps + aliveTown ps = length (filter isAlive ps)"
proof -
  have le: "aliveMafia ps \<le> length (filter isAlive ps)" by (rule aliveMafia_le)
  then have "int (length (filter isAlive ps)) - int (aliveMafia ps) = int (aliveTown ps)"
    by (simp add: aliveTown_def)
  then have "calcWinner ps = spec_winner ps"
    by (simp add: calcWinner_counts spec_winner_def)
  moreover have "aliveMafia ps + aliveTown ps = length (filter isAlive ps)"
    using le by (simp add: aliveTown_def)
  ultimately show ?thesis by simp
qed

subsection \<open>The vote tally\<close>

lemma map_fst_obj_set:
  "map fst (obj_set k v m) = (if k \<in> set (map fst m) then map fst m else map fst m @ [k])"
  by (induction k v m rule: obj_set.induct) auto

lemma map_of_obj_set: "map_of (obj_set k v m) = (map_of m)(k \<mapsto> v)"
  by (induction k v m rule: obj_set.induct) (auto simp: fun_eq_iff)

lemma distinct_obj_set: "distinct (map fst m) \<Longrightarrow> distinct (map fst (obj_set k v m))"
  by (simp add: map_fst_obj_set)

lemma snd_obj_set: "snd ` set (obj_set k v m) \<subseteq> insert v (snd ` set m)"
  by (induction k v m rule: obj_set.induct) auto

lemma tally_get_obj_set:
  "tally_get (obj_set k v m) t = (if t = k then v else tally_get m t)"
  by (simp add: tally_get_def map_of_obj_set)

lemma distinct_tally_votes:
  "distinct (map fst acc) \<Longrightarrow> distinct (map fst (tally_votes A vs acc))"
  by (induction A vs acc rule: tally_votes.induct) (simp_all add: distinct_obj_set)

lemma positive_tally_votes:
  "0 \<notin> snd ` set acc \<Longrightarrow> 0 \<notin> snd ` set (tally_votes A vs acc)"
proof (induction A vs acc rule: tally_votes.induct)
  case (1 A tally)
  then show ?case by simp
next
  case (2 A voter target rest tally)
  have "0 \<notin> snd ` set (obj_set target (tally_get tally target + 1) tally)"
    using snd_obj_set [of target "tally_get tally target + 1" tally] "2.prems" by auto
  with 2 show ?case by simp
qed

lemma tally_get_tally_votes:
  "tally_get (tally_votes A vs acc) t =
     tally_get acc t + length (filter (\<lambda>(v, t'). t' = t) (filter (\<lambda>(v, t). v \<in> set A \<and> t \<in> set A) vs))"
  by (induction A vs acc rule: tally_votes.induct) (simp_all add: tally_get_obj_set)

lemma tally_get_votesFor:
  "tally_get (tally_votes (aliveIds ps) vs []) t = votesFor ps vs t"
proof -
  have "tally_get [] t = 0" by (simp add: tally_get_def)
  then show ?thesis
    by (simp add: tally_get_tally_votes votesFor_def validVotes_def)
qed

lemma entry_iff_tally_get:
  assumes "distinct (map fst es)" "0 \<notin> snd ` set es"
  shows "(k, c) \<in> set es \<longleftrightarrow> 0 < c \<and> tally_get es k = c"
proof
  assume "(k, c) \<in> set es"
  then have "map_of es k = Some c" using assms(1) by simp
  moreover have "c \<noteq> 0" using \<open>(k, c) \<in> set es\<close> assms(2) by force
  ultimately show "0 < c \<and> tally_get es k = c" by (simp add: tally_get_def)
next
  assume "0 < c \<and> tally_get es k = c"
  then show "(k, c) \<in> set es"
    by (auto simp: tally_get_def split: option.splits dest: map_of_SomeD)
qed

lemma pick_max_inv:
  assumes "distinct (map fst (S @ es))" "0 \<notin> snd ` set (S @ es)"
    and "\<forall>(k, c) \<in> set S. c \<le> m"
    and "S = [] \<longrightarrow> e = None \<and> m = 0 \<and> \<not> tie"
    and "S \<noteq> [] \<longrightarrow> (\<exists>k. e = Some k \<and> (k, m) \<in> set S)"
    and "tie \<longleftrightarrow> (\<exists>k1 k2. k1 \<noteq> k2 \<and> (k1, m) \<in> set S \<and> (k2, m) \<in> set S)"
  shows "case pick_max es (e, m, tie) of (e', m', tie') \<Rightarrow>
           (\<forall>(k, c) \<in> set (S @ es). c \<le> m') \<and>
           (S @ es = [] \<longrightarrow> e' = None \<and> m' = 0 \<and> \<not> tie') \<and>
           (S @ es \<noteq> [] \<longrightarrow> (\<exists>k. e' = Some k \<and> (k, m') \<in> set (S @ es))) \<and>
           (tie' \<longleftrightarrow> (\<exists>k1 k2. k1 \<noteq> k2 \<and> (k1, m') \<in> set (S @ es) \<and> (k2, m') \<in> set (S @ es)))"
  using assms
proof (induction es arbitrary: S e m tie)
  case Nil
  then show ?case by simp
next
  case (Cons x es)
  obtain k c where x: "x = (k, c)" by (cases x)
  have cpos: "0 < c" using Cons.prems(2) x by force
  have knew: "k \<notin> fst ` set S" using Cons.prems(1) x by auto
  have d: "distinct (map fst ((S @ [(k, c)]) @ es))" using Cons.prems(1) x by simp
  have p: "0 \<notin> snd ` set ((S @ [(k, c)]) @ es)" using Cons.prems(2) x by simp
  have app: "S @ x # es = (S @ [(k, c)]) @ es" using x by simp
  consider (gt) "c > m" | (eq) "c = m" | (lt) "c < m" by linarith
  then show ?case
  proof cases
    case gt
    have "case pick_max es (Some k, c, False) of (e', m', tie') \<Rightarrow>
           (\<forall>(k, c) \<in> set ((S @ [(k, c)]) @ es). c \<le> m') \<and>
           ((S @ [(k, c)]) @ es = [] \<longrightarrow> e' = None \<and> m' = 0 \<and> \<not> tie') \<and>
           ((S @ [(k, c)]) @ es \<noteq> [] \<longrightarrow> (\<exists>k'. e' = Some k' \<and> (k', m') \<in> set ((S @ [(k, c)]) @ es))) \<and>
           (tie' \<longleftrightarrow> (\<exists>k1 k2. k1 \<noteq> k2 \<and> (k1, m') \<in> set ((S @ [(k, c)]) @ es) \<and> (k2, m') \<in> set ((S @ [(k, c)]) @ es)))"
    proof (rule Cons.IH [OF d p])
      show "\<forall>(k', c') \<in> set (S @ [(k, c)]). c' \<le> c" using Cons.prems(3) gt by auto
      show "S @ [(k, c)] = [] \<longrightarrow> Some k = None \<and> c = 0 \<and> \<not> False" by simp
      show "S @ [(k, c)] \<noteq> [] \<longrightarrow> (\<exists>k'. Some k = Some k' \<and> (k', c) \<in> set (S @ [(k, c)]))" by simp
      show "False \<longleftrightarrow> (\<exists>k1 k2. k1 \<noteq> k2 \<and> (k1, c) \<in> set (S @ [(k, c)]) \<and> (k2, c) \<in> set (S @ [(k, c)]))"
        using Cons.prems(3) gt by fastforce
    qed
    then show ?thesis using gt x app by simp
  next
    case eq
    then have Sne: "S \<noteq> []" using Cons.prems(4) cpos by auto
    then obtain k0 where k0: "e = Some k0" "(k0, m) \<in> set S" using Cons.prems(5) by auto
    have k0k: "k0 \<noteq> k" using k0(2) knew by force
    have "case pick_max es (e, m, True) of (e', m', tie') \<Rightarrow>
           (\<forall>(k, c) \<in> set ((S @ [(k, c)]) @ es). c \<le> m') \<and>
           ((S @ [(k, c)]) @ es = [] \<longrightarrow> e' = None \<and> m' = 0 \<and> \<not> tie') \<and>
           ((S @ [(k, c)]) @ es \<noteq> [] \<longrightarrow> (\<exists>k'. e' = Some k' \<and> (k', m') \<in> set ((S @ [(k, c)]) @ es))) \<and>
           (tie' \<longleftrightarrow> (\<exists>k1 k2. k1 \<noteq> k2 \<and> (k1, m') \<in> set ((S @ [(k, c)]) @ es) \<and> (k2, m') \<in> set ((S @ [(k, c)]) @ es)))"
    proof (rule Cons.IH [OF d p])
      show "\<forall>(k', c') \<in> set (S @ [(k, c)]). c' \<le> m" using Cons.prems(3) eq by auto
      show "S @ [(k, c)] = [] \<longrightarrow> e = None \<and> m = 0 \<and> \<not> True" by simp
      show "S @ [(k, c)] \<noteq> [] \<longrightarrow> (\<exists>k'. e = Some k' \<and> (k', m) \<in> set (S @ [(k, c)]))"
        using k0 by auto
      show "True \<longleftrightarrow> (\<exists>k1 k2. k1 \<noteq> k2 \<and> (k1, m) \<in> set (S @ [(k, c)]) \<and> (k2, m) \<in> set (S @ [(k, c)]))"
        using k0 k0k eq by auto
    qed
    then show ?thesis using eq cpos x app by simp
  next
    case lt
    then have Sne: "S \<noteq> []" using Cons.prems(4) by auto
    have "case pick_max es (e, m, tie) of (e', m', tie') \<Rightarrow>
           (\<forall>(k, c) \<in> set ((S @ [(k, c)]) @ es). c \<le> m') \<and>
           ((S @ [(k, c)]) @ es = [] \<longrightarrow> e' = None \<and> m' = 0 \<and> \<not> tie') \<and>
           ((S @ [(k, c)]) @ es \<noteq> [] \<longrightarrow> (\<exists>k'. e' = Some k' \<and> (k', m') \<in> set ((S @ [(k, c)]) @ es))) \<and>
           (tie' \<longleftrightarrow> (\<exists>k1 k2. k1 \<noteq> k2 \<and> (k1, m') \<in> set ((S @ [(k, c)]) @ es) \<and> (k2, m') \<in> set ((S @ [(k, c)]) @ es)))"
    proof (rule Cons.IH [OF d p])
      show "\<forall>(k', c') \<in> set (S @ [(k, c)]). c' \<le> m" using Cons.prems(3) lt by auto
      show "S @ [(k, c)] = [] \<longrightarrow> e = None \<and> m = 0 \<and> \<not> tie" by simp
      show "S @ [(k, c)] \<noteq> [] \<longrightarrow> (\<exists>k'. e = Some k' \<and> (k', m) \<in> set (S @ [(k, c)]))"
        using Cons.prems(5) Sne by auto
      show "tie \<longleftrightarrow> (\<exists>k1 k2. k1 \<noteq> k2 \<and> (k1, m) \<in> set (S @ [(k, c)]) \<and> (k2, m) \<in> set (S @ [(k, c)]))"
        using Cons.prems(6) lt by auto
    qed
    then show ?thesis using lt x app by simp
  qed
qed

lemma eliminatedId_iff:
  "eliminatedId ps vs = Some t \<longleftrightarrow>
     0 < votesFor ps vs t \<and> (\<forall>t'. t' \<noteq> t \<longrightarrow> votesFor ps vs t' < votesFor ps vs t)"
proof -
  define es where "es = tally_votes (aliveIds ps) vs []"
  have d: "distinct (map fst es)" unfolding es_def by (rule distinct_tally_votes) simp
  have p: "0 \<notin> snd ` set es" unfolding es_def by (rule positive_tally_votes) simp
  have f: "\<And>k. tally_get es k = votesFor ps vs k" unfolding es_def by (rule tally_get_votesFor)
  have ent: "\<And>k c. (k, c) \<in> set es \<longleftrightarrow> 0 < c \<and> votesFor ps vs k = c"
    using entry_iff_tally_get [OF d p] f by simp
  obtain e m tie where pm: "pick_max es (None, 0, False) = (e, m, tie)"
    by (cases "pick_max es (None, 0, False)")
  have inv: "(\<forall>(k, c) \<in> set es. c \<le> m) \<and>
           (es = [] \<longrightarrow> e = None \<and> m = 0 \<and> \<not> tie) \<and>
           (es \<noteq> [] \<longrightarrow> (\<exists>k. e = Some k \<and> (k, m) \<in> set es)) \<and>
           (tie \<longleftrightarrow> (\<exists>k1 k2. k1 \<noteq> k2 \<and> (k1, m) \<in> set es \<and> (k2, m) \<in> set es))"
    using pick_max_inv [of "[]" es 0 None False] d p pm by simp
  have le: "\<And>k. votesFor ps vs k \<le> m"
  proof -
    fix k
    show "votesFor ps vs k \<le> m"
    proof (cases "votesFor ps vs k = 0")
      case True then show ?thesis by simp
    next
      case False
      then have "(k, votesFor ps vs k) \<in> set es" using ent by simp
      then show ?thesis using inv by auto
    qed
  qed
  have res: "eliminatedId ps vs = (if tie then None else e)"
    by (simp add: eliminatedId_def es_def [symmetric] pm)
  show ?thesis
  proof
    assume "eliminatedId ps vs = Some t"
    then have nt: "\<not> tie" and et: "e = Some t" using res by (auto split: if_splits)
    then have "es \<noteq> []" using inv by auto
    then have tm: "(t, m) \<in> set es" using inv et by auto
    then have m: "0 < m" "votesFor ps vs t = m" using ent by auto
    have "\<And>t'. t' \<noteq> t \<Longrightarrow> votesFor ps vs t' < m"
    proof -
      fix t' assume ne: "t' \<noteq> t"
      show "votesFor ps vs t' < m"
      proof (rule ccontr)
        assume "\<not> votesFor ps vs t' < m"
        then have "votesFor ps vs t' = m" using le [of t'] by simp
        then have "(t', m) \<in> set es" using ent m(1) by simp
        then have tie using inv tm ne by blast
        then show False using nt by simp
      qed
    qed
    then show "0 < votesFor ps vs t \<and> (\<forall>t'. t' \<noteq> t \<longrightarrow> votesFor ps vs t' < votesFor ps vs t)"
      using m by simp
  next
    assume a: "0 < votesFor ps vs t \<and> (\<forall>t'. t' \<noteq> t \<longrightarrow> votesFor ps vs t' < votesFor ps vs t)"
    then have tin: "(t, votesFor ps vs t) \<in> set es" using ent by simp
    then have "es \<noteq> []" by auto
    then obtain k0 where k0: "e = Some k0" "(k0, m) \<in> set es" using inv by auto
    then have k0m: "votesFor ps vs k0 = m" using ent by simp
    have "k0 = t"
    proof (rule ccontr)
      assume "k0 \<noteq> t"
      then have "votesFor ps vs k0 < votesFor ps vs t" using a by simp
      then show False using k0m le [of t] by simp
    qed
    have "\<not> tie"
    proof
      assume tie
      then obtain k1 k2 where k: "k1 \<noteq> k2" "(k1, m) \<in> set es" "(k2, m) \<in> set es"
        using inv by auto
      then have "votesFor ps vs k1 = m" "votesFor ps vs k2 = m" using ent by simp_all
      moreover have "k1 \<noteq> t \<or> k2 \<noteq> t" using k(1) by auto
      ultimately show False using a k0m \<open>k0 = t\<close> by (metis less_irrefl)
    qed
    then show "eliminatedId ps vs = Some t" using res k0 \<open>k0 = t\<close> by simp
  qed
qed

text \<open>The outcome of the second loop does not depend on the order of the entries.\<close>

lemma pick_max_result:
  assumes d: "distinct (map fst es)" and p: "0 \<notin> snd ` set es"
  shows "(case pick_max es (None, 0, False) of (e, m, tie) \<Rightarrow> if tie then None else e) = Some t
         \<longleftrightarrow> (\<exists>c. (t, c) \<in> set es \<and> (\<forall>(k', c') \<in> set es. k' \<noteq> t \<longrightarrow> c' < c))"
proof -
  obtain e m tie where pm: "pick_max es (None, 0, False) = (e, m, tie)"
    by (cases "pick_max es (None, 0, False)")
  have inv: "(\<forall>(k, c) \<in> set es. c \<le> m) \<and>
           (es = [] \<longrightarrow> e = None \<and> m = 0 \<and> \<not> tie) \<and>
           (es \<noteq> [] \<longrightarrow> (\<exists>k. e = Some k \<and> (k, m) \<in> set es)) \<and>
           (tie \<longleftrightarrow> (\<exists>k1 k2. k1 \<noteq> k2 \<and> (k1, m) \<in> set es \<and> (k2, m) \<in> set es))"
    using pick_max_inv [of "[]" es 0 None False] d p pm by simp
  have uniq: "\<And>k c c'. (k, c) \<in> set es \<Longrightarrow> (k, c') \<in> set es \<Longrightarrow> c = c'"
    using d by (meson eq_key_imp_eq_value)
  show ?thesis
  proof
    assume "(case pick_max es (None, 0, False) of (e, m, tie) \<Rightarrow> if tie then None else e) = Some t"
    then have nt: "\<not> tie" and et: "e = Some t" using pm by (auto split: if_splits)
    then have "es \<noteq> []" using inv by auto
    then have tm: "(t, m) \<in> set es" using inv et by auto
    have "\<forall>(k', c') \<in> set es. k' \<noteq> t \<longrightarrow> c' < m"
    proof (clarify)
      fix k' c' assume in': "(k', c') \<in> set es" and ne: "k' \<noteq> t"
      have "c' \<le> m" using inv in' by auto
      moreover have "c' \<noteq> m" using inv nt tm in' ne by blast
      ultimately show "c' < m" by simp
    qed
    then show "\<exists>c. (t, c) \<in> set es \<and> (\<forall>(k', c') \<in> set es. k' \<noteq> t \<longrightarrow> c' < c)"
      using tm by blast
  next
    assume "\<exists>c. (t, c) \<in> set es \<and> (\<forall>(k', c') \<in> set es. k' \<noteq> t \<longrightarrow> c' < c)"
    then obtain c where tc: "(t, c) \<in> set es"
      and lt: "\<And>k' c'. (k', c') \<in> set es \<Longrightarrow> k' \<noteq> t \<Longrightarrow> c' < c" by blast
    then have "es \<noteq> []" by auto
    then obtain k0 where k0: "e = Some k0" "(k0, m) \<in> set es" using inv by auto
    have cm: "c \<le> m" using inv tc by auto
    have "k0 = t"
    proof (rule ccontr)
      assume "k0 \<noteq> t"
      then have "m < c" using lt k0(2) by blast
      then show False using cm by simp
    qed
    then have mc: "m = c" using uniq k0(2) tc by blast
    have "\<not> tie"
    proof
      assume tie
      then obtain k1 k2 where k: "k1 \<noteq> k2" "(k1, m) \<in> set es" "(k2, m) \<in> set es"
        using inv by auto
      have "k1 \<noteq> t \<or> k2 \<noteq> t" using k(1) by auto
      then have "m < c" using lt k(2,3) by blast
      then show False using mc by simp
    qed
    then show "(case pick_max es (None, 0, False) of (e, m, tie) \<Rightarrow> if tie then None else e) = Some t"
      using pm k0 \<open>k0 = t\<close> by simp
  qed
qed

lemma pick_max_order:
  assumes "distinct (map fst es)" "0 \<notin> snd ` set es" "distinct (map fst es')" "set es' = set es"
  shows "(case pick_max es' (None, 0, False) of (e, m, tie) \<Rightarrow> if tie then None else e)
       = (case pick_max es (None, 0, False) of (e, m, tie) \<Rightarrow> if tie then None else e)"
proof -
  have p': "0 \<notin> snd ` set es'" using assms(2,4) by simp
  have "\<And>t. ((case pick_max es' (None, 0, False) of (e, m, tie) \<Rightarrow> if tie then None else e) = Some t)
          = ((case pick_max es (None, 0, False) of (e, m, tie) \<Rightarrow> if tie then None else e) = Some t)"
    unfolding pick_max_result [OF assms(1,2)] pick_max_result [OF assms(3) p'] assms(4) ..
  then show ?thesis by (metis option.exhaust)
qed

lemma votesFor_pos_alive: "0 < votesFor ps vs t \<Longrightarrow> t \<in> set (aliveIds ps)"
proof -
  assume "0 < votesFor ps vs t"
  then have "filter (\<lambda>(v, t'). t' = t) (validVotes ps vs) \<noteq> []"
    by (simp add: votesFor_def)
  then obtain x where "x \<in> set (validVotes ps vs)" "snd x = t"
    by (fastforce simp: filter_empty_conv)
  then show ?thesis by (auto simp: validVotes_def)
qed

lemma eliminatedId_alive: "eliminatedId ps vs = Some t \<Longrightarrow> t \<in> set (aliveIds ps)"
  using eliminatedId_iff votesFor_pos_alive by blast

lemma aliveIds_subset: "t \<in> set (aliveIds ps) \<Longrightarrow> t \<in> set (map pid ps)"
  by (auto simp: aliveIds_def)

subsection \<open>Batches\<close>

lemma setPlayer_pid: "(\<And>q. pid (f q) = pid q) \<Longrightarrow> map pid (setPlayer i f ps) = map pid ps"
  by (simp add: setPlayer_def)

lemma fold_player_writes:
  assumes "\<And>q. pid (f q) = pid q" "\<And>q. f (f q) = f q"
  shows "fold apply_write (map (\<lambda>p. PlayerWrite (pid p) f) qs) s =
         s\<lparr>playerDocs := map (\<lambda>p. if pid p \<in> set (map pid qs) then f p else p) (playerDocs s)\<rparr>"
proof (induction qs arbitrary: s)
  case Nil
  then show ?case by simp
next
  case (Cons q qs)
  show ?case
    by (simp add: Cons.IH setPlayer_def assms o_def)
qed

lemma fold_markDead:
  "fold apply_write (markDead k) s =
     s\<lparr>playerDocs := map (\<lambda>p. if Some (pid p) = k \<and> truthy k then p\<lparr>isAlive := False\<rparr> else p)
                          (playerDocs s)\<rparr>"
proof (cases k)
  case None
  then show ?thesis by simp
next
  case (Some i)
  then show ?thesis by (simp add: setPlayer_def)
qed

lemma markDead_ok:
  "(\<And>i. k = Some i \<Longrightarrow> i \<noteq> [] \<Longrightarrow> i \<in> set (map pid (playerDocs s)))
   \<Longrightarrow> list_all (write_ok s) (markDead k)"
  by (cases k) auto

lemma commit_resolution:
  assumes r: "roomDoc s = Some r"
    and ids: "map pid (playerDocs s) = map pid players"
    and k: "\<And>i. k = Some i \<Longrightarrow> i \<noteq> [] \<Longrightarrow> i \<in> set (map pid players)"
    and f: "\<And>q. pid (f q) = pid q" "\<And>q. f (f q) = f q"
  shows "commit (markDead k @ map (\<lambda>p. PlayerWrite (pid p) f) players @ [RoomWrite g]) s =
         Done \<lparr>roomDoc = Some (g r),
               playerDocs = map (\<lambda>p. f (if Some (pid p) = k \<and> truthy k then p\<lparr>isAlive := False\<rparr> else p))
                                (playerDocs s)\<rparr>"
proof -
  have ok1: "list_all (write_ok s) (markDead k)"
    by (rule markDead_ok) (use k ids in simp)
  have ok2: "list_all (write_ok s) (map (\<lambda>p. PlayerWrite (pid p) f) players)"
    using ids by (simp add: list_all_iff)
  have ok: "list_all (write_ok s) (markDead k @ map (\<lambda>p. PlayerWrite (pid p) f) players @ [RoomWrite g])"
    using ok1 ok2 r by simp
  have mem: "\<And>p. p \<in> set (playerDocs s) \<Longrightarrow> pid p \<in> pid ` set players"
  proof -
    fix p assume "p \<in> set (playerDocs s)"
    then have "pid p \<in> set (map pid (playerDocs s))" by simp
    then show "pid p \<in> pid ` set players" using ids by simp
  qed
  show ?thesis
    using mem by (simp add: commit_def ok fold_player_writes [OF f] fold_markDead r del: list_all_append)
qed

lemma commit_Done_fold: "commit ws s = Done s' \<Longrightarrow> list_all (write_ok s) ws \<and> s' = fold apply_write ws s"
  by (auto simp: commit_def split: if_splits)

lemma commit_Failed: "commit ws s = Failed e s' \<Longrightarrow> e = DocMissing \<and> s' = s"
  by (auto simp: commit_def split: if_splits)

lemma roomDoc_fold_player_writes:
  "roomDoc (fold apply_write (map (\<lambda>p. PlayerWrite (pid p) f) qs) s) = roomDoc s"
  by (induction qs arbitrary: s) simp_all

lemma commit_resolution_Done:
  assumes c: "commit (markDead k @ map (\<lambda>p. PlayerWrite (pid p) f) players @ [RoomWrite g]) s = Done s'"
    and ids: "map pid (playerDocs s) = map pid players"
    and f: "\<And>q. pid (f q) = pid q" "\<And>q. f (f q) = f q"
  shows "playerDocs s' = map (\<lambda>p. f (if Some (pid p) = k \<and> truthy k then p\<lparr>isAlive := False\<rparr> else p))
                                (playerDocs s)"
    and "roomDoc s' = map_option g (roomDoc s)"
    and "roomDoc s \<noteq> None"
    and "\<And>i. k = Some i \<Longrightarrow> i \<noteq> [] \<Longrightarrow> i \<in> set (map pid players)"
proof -
  from commit_Done_fold [OF c]
  have ok: "list_all (write_ok s) (markDead k @ map (\<lambda>p. PlayerWrite (pid p) f) players @ [RoomWrite g])"
    and s': "s' = fold apply_write (markDead k @ map (\<lambda>p. PlayerWrite (pid p) f) players @ [RoomWrite g]) s"
    by simp_all
  have mem: "\<And>p. p \<in> set (playerDocs s) \<Longrightarrow> pid p \<in> pid ` set players"
  proof -
    fix p assume "p \<in> set (playerDocs s)"
    then have "pid p \<in> set (map pid (playerDocs s))" by simp
    then show "pid p \<in> pid ` set players" using ids by simp
  qed
  show "playerDocs s' = map (\<lambda>p. f (if Some (pid p) = k \<and> truthy k then p\<lparr>isAlive := False\<rparr> else p))
                                (playerDocs s)"
    using mem by (simp add: s' fold_player_writes [OF f] fold_markDead)
  show "roomDoc s' = map_option g (roomDoc s)"
    by (simp add: s' fold_player_writes [OF f] fold_markDead)
  show "roomDoc s \<noteq> None" using ok by simp
  show "\<And>i. k = Some i \<Longrightarrow> i \<noteq> [] \<Longrightarrow> i \<in> set (map pid players)"
    using ok ids by auto
qed

lemma writeCheckResult_Failed:
  "writeCheckResult now n players s = Failed e s1 \<Longrightarrow> e = DocMissing \<and> s1 = s"
  by (auto simp: writeCheckResult_def updatePlayerDoc_def split: option.splits if_splits)

text \<open>What the check write does to the store, when it succeeds.\<close>

lemma writeCheckResult_Done:
  assumes "writeCheckResult now n players s = Done s1"
  shows "roomDoc s1 = roomDoc s"
    and "map pid (playerDocs s1) = map pid (playerDocs s)"
    and "map isAlive (playerDocs s1) = map isAlive (playerDocs s)"
    and "map role (playerDocs s1) = map role (playerDocs s)"
    and "map nightSubmitted (playerDocs s1) = map nightSubmitted (playerDocs s)"
  using assms
  by (auto simp: writeCheckResult_def updatePlayerDoc_def setPlayer_def
      split: option.splits if_splits)

lemma killedPlayerId_truthy: "killedPlayerId n = Some i \<Longrightarrow> i \<noteq> []"
  by (auto simp: killedPlayerId_def split: if_splits)

lemma resolveNight_DoneD:
  assumes room: "roomDoc s = Some room" and res: "resolveNight now d s = Done s'"
  obtains s1 where "writeCheckResult now (night room) (playerDocs s) s = Done s1"
    and "playerDocs s' = map (\<lambda>p. (if Some (pid p) = killedPlayerId (night room)
                                     then p\<lparr>isAlive := False\<rparr> else p)\<lparr>nightSubmitted := False\<rparr>)
                               (playerDocs s1)"
    and "\<And>i. killedPlayerId (night room) = Some i \<Longrightarrow> i \<in> set (map pid (playerDocs s))"
    and "\<exists>r'. roomDoc s' = Some r'
           \<and> night r' = emptyNight\<lparr>lastKilledPlayerId := killedPlayerId (night room),
                                   lastSavedPlayerId := saveTargetId (night room)\<rparr>
           \<and> dayCheckResult r' = None"
proof -
  let ?n = "night room"
  let ?k = "killedPlayerId ?n"
  obtain s1 where w: "writeCheckResult now ?n (playerDocs s) s = Done s1"
    using res room by (cases "writeCheckResult now ?n (playerDocs s) s")
      (simp_all add: resolveNight_def Let_def)
  then obtain g where c: "commit (markDead ?k
           @ map (\<lambda>p. PlayerWrite (pid p) (\<lambda>q. q\<lparr>nightSubmitted := False\<rparr>)) (playerDocs s)
           @ [RoomWrite g]) s1 = Done s'"
     and g: "\<And>r. night (g r) = emptyNight\<lparr>lastKilledPlayerId := ?k, lastSavedPlayerId := saveTargetId ?n\<rparr>
               \<and> dayCheckResult (g r) = None"
    using res room by (cases "calcWinner (playersAfter ?k (playerDocs s))")
      (simp_all add: resolveNight_def Let_def)
  have ids: "map pid (playerDocs s1) = map pid (playerDocs s)"
    by (rule writeCheckResult_Done(2) [OF w])
  have tr: "\<And>p. (Some (pid p) = ?k \<and> truthy ?k) = (Some (pid p) = ?k)"
    using killedPlayerId_truthy [of ?n] by (metis truthy.simps(2))
  note D = commit_resolution_Done [OF c ids]
  have 1: "playerDocs s' = map (\<lambda>p. (if Some (pid p) = ?k
                                     then p\<lparr>isAlive := False\<rparr> else p)\<lparr>nightSubmitted := False\<rparr>)
                               (playerDocs s1)"
    using D(1) by (simp add: tr)
  have 2: "\<And>i. ?k = Some i \<Longrightarrow> i \<in> set (map pid (playerDocs s))"
    using D(4) killedPlayerId_truthy [of ?n] by simp
  have "roomDoc s1 = Some room" using writeCheckResult_Done(1) [OF w] room by simp
  then have 3: "\<exists>r'. roomDoc s' = Some r'
           \<and> night r' = emptyNight\<lparr>lastKilledPlayerId := ?k, lastSavedPlayerId := saveTargetId ?n\<rparr>
           \<and> dayCheckResult r' = None"
    using D(2) g by simp
  show ?thesis using that [OF w 1 2 3] .
qed

subsection \<open>Night resolution\<close>

lemma writeCheckResult_map:
  assumes "writeCheckResult now n players s = Done s1"
  obtains h where "playerDocs s1 = map h (playerDocs s)" "\<And>p. isAlive (h p) = isAlive p"
    "\<And>p. pid (h p) = pid p"
proof (cases "s1 = s")
  case True
  then have "playerDocs s1 = map (\<lambda>p. p) (playerDocs s)" by simp
  then show ?thesis using that [of "\<lambda>p. p"] by simp
next
  case False
  then obtain cb x where "s1 = s\<lparr>playerDocs := setPlayer cb (\<lambda>q. q\<lparr>lastCheckResult := x\<rparr>) (playerDocs s)\<rparr>"
    using assms
    by (auto simp: writeCheckResult_def updatePlayerDoc_def split: option.splits if_splits)
  then have "playerDocs s1 = map (\<lambda>p. if pid p = cb then p\<lparr>lastCheckResult := x\<rparr> else p) (playerDocs s)"
    by (simp add: setPlayer_def)
  then show ?thesis
    using that [of "\<lambda>p. if pid p = cb then p\<lparr>lastCheckResult := x\<rparr> else p"] by simp
qed

lemma resolveNight_room:
  assumes room: "roomDoc s = Some room" and res: "resolveNight now d s = Done s'"
  shows "roomDoc s' = Some
     ((case calcWinner (playersAfter (killedPlayerId (night room)) (playerDocs s)) of
         Some w \<Rightarrow>
           (\<lambda>r. r\<lparr>status := ''ended'', winner := Some w, phase := ''ended'',
                  phaseEndsAtMs := None,
                  night := emptyNight\<lparr>lastKilledPlayerId := killedPlayerId (night room),
                                       lastSavedPlayerId := saveTargetId (night room)\<rparr>,
                  dayCheckResult := None, vote := emptyVote\<rparr>)
       | None \<Rightarrow>
           (\<lambda>r. r\<lparr>phase := ''day'',
                  phaseEndsAtMs := Some (computeEndsAtMs now
                     (case d of Some d \<Rightarrow> d
                      | None \<Rightarrow> (case daySec (settings room) of Some d \<Rightarrow> d | None \<Rightarrow> 60))),
                  dayNumber := dayNumber room + 1,
                  night := emptyNight\<lparr>lastKilledPlayerId := killedPlayerId (night room),
                                       lastSavedPlayerId := saveTargetId (night room)\<rparr>,
                  dayCheckResult := None, vote := emptyVote\<rparr>)) room)"
proof -
  let ?n = "night room"
  obtain s1 where w: "writeCheckResult now ?n (playerDocs s) s = Done s1"
    using res room by (cases "writeCheckResult now ?n (playerDocs s) s")
      (simp_all add: resolveNight_def Let_def)
  have r1: "roomDoc s1 = Some room" using writeCheckResult_Done(1) [OF w] room by simp
  have ids: "map pid (playerDocs s1) = map pid (playerDocs s)"
    by (rule writeCheckResult_Done(2) [OF w])
  from res room w obtain g where
    c: "commit (markDead (killedPlayerId ?n)
           @ map (\<lambda>p. PlayerWrite (pid p) (\<lambda>q. q\<lparr>nightSubmitted := False\<rparr>)) (playerDocs s)
           @ [RoomWrite g]) s1 = Done s'"
    and g: "g = (case calcWinner (playersAfter (killedPlayerId ?n) (playerDocs s)) of
         Some w \<Rightarrow>
           (\<lambda>r. r\<lparr>status := ''ended'', winner := Some w, phase := ''ended'',
                  phaseEndsAtMs := None,
                  night := emptyNight\<lparr>lastKilledPlayerId := killedPlayerId ?n,
                                       lastSavedPlayerId := saveTargetId ?n\<rparr>,
                  dayCheckResult := None, vote := emptyVote\<rparr>)
       | None \<Rightarrow>
           (\<lambda>r. r\<lparr>phase := ''day'',
                  phaseEndsAtMs := Some (computeEndsAtMs now
                     (case d of Some d \<Rightarrow> d
                      | None \<Rightarrow> (case daySec (settings room) of Some d \<Rightarrow> d | None \<Rightarrow> 60))),
                  dayNumber := dayNumber room + 1,
                  night := emptyNight\<lparr>lastKilledPlayerId := killedPlayerId ?n,
                                       lastSavedPlayerId := saveTargetId ?n\<rparr>,
                  dayCheckResult := None, vote := emptyVote\<rparr>))"
    by (simp add: resolveNight_def Let_def)
  have "roomDoc s' = map_option g (roomDoc s1)"
    by (rule commit_resolution_Done(2) [OF c ids]) simp_all
  then show ?thesis using r1 g by simp
qed

lemma killedPlayerId_other_save:
  "sv \<noteq> killTargetId n \<Longrightarrow>
   killedPlayerId (n\<lparr>saveTargetId := sv\<rparr>) = (if truthy (killTargetId n) then killTargetId n else None)"
  by (auto simp: killedPlayerId_def)

text \<open>
  Claim C2. When \<open>resolveNight\<close> commits, the killed player is the kill target if one is
  present (defined and not the empty string) and differs from the save target, and nobody
  otherwise; a save target other than the kill target, or none, leaves the kill in place.
  Every player keeps its id, the killed player exists, and a player is alive afterwards
  exactly if it was alive before and is not the killed player (so a dead player stays
  dead). The room records the killed id, and winner, status, phase and day number follow
  from the roster after that death alone.
\<close>

theorem night_resolution_kill:
  assumes room: "roomDoc s = Some room" and res: "resolveNight now d s = Done s'"
  shows "killedPlayerId (night room) =
           (if truthy (killTargetId (night room)) \<and> killTargetId (night room) \<noteq> saveTargetId (night room)
            then killTargetId (night room) else None)
       \<and> (\<forall>sv. sv \<noteq> killTargetId (night room) \<longrightarrow>
             killedPlayerId ((night room)\<lparr>saveTargetId := sv\<rparr>) =
               (if truthy (killTargetId (night room)) then killTargetId (night room) else None))
       \<and> map pid (playerDocs s') = map pid (playerDocs s)
       \<and> map isAlive (playerDocs s') =
           map (\<lambda>p. isAlive p \<and> Some (pid p) \<noteq> killedPlayerId (night room)) (playerDocs s)
       \<and> set_option (killedPlayerId (night room)) \<subseteq> set (map pid (playerDocs s))
       \<and> (\<exists>r'. roomDoc s' = Some r'
             \<and> lastKilledPlayerId (night r') = killedPlayerId (night room)
             \<and> (case calcWinner (playersAfter (killedPlayerId (night room)) (playerDocs s)) of
                   Some w \<Rightarrow> status r' = ''ended'' \<and> winner r' = Some w \<and> phase r' = ''ended''
                 | None \<Rightarrow> status r' = status room \<and> winner r' = winner room
                           \<and> phase r' = ''day'' \<and> dayNumber r' = dayNumber room + 1))"
proof -
  let ?k = "killedPlayerId (night room)"
  obtain s1 where
    w: "writeCheckResult now (night room) (playerDocs s) s = Done s1"
    and ps: "playerDocs s' = map (\<lambda>p. (if Some (pid p) = ?k
                                     then p\<lparr>isAlive := False\<rparr> else p)\<lparr>nightSubmitted := False\<rparr>)
                               (playerDocs s1)"
    and ex: "\<And>i. ?k = Some i \<Longrightarrow> i \<in> set (map pid (playerDocs s))"
    and r': "\<exists>r'. roomDoc s' = Some r'
           \<and> night r' = emptyNight\<lparr>lastKilledPlayerId := ?k,
                                   lastSavedPlayerId := saveTargetId (night room)\<rparr>
           \<and> dayCheckResult r' = None"
    by (rule resolveNight_DoneD [OF room res]) (rule that; (assumption | blast))
  have 1: "?k = (if truthy (killTargetId (night room)) \<and> killTargetId (night room) \<noteq> saveTargetId (night room)
            then killTargetId (night room) else None)"
    by (simp add: killedPlayerId_def)
  have 2: "\<forall>sv. sv \<noteq> killTargetId (night room) \<longrightarrow>
             killedPlayerId ((night room)\<lparr>saveTargetId := sv\<rparr>) =
               (if truthy (killTargetId (night room)) then killTargetId (night room) else None)"
    using killedPlayerId_other_save by blast
  have "map pid (playerDocs s') = map pid (playerDocs s1)"
    by (simp add: ps o_def)
  then have 3: "map pid (playerDocs s') = map pid (playerDocs s)"
    using writeCheckResult_Done(2) [OF w] by simp
  have "map isAlive (playerDocs s') = map (\<lambda>p. isAlive p \<and> Some (pid p) \<noteq> ?k) (playerDocs s1)"
    by (simp add: ps o_def)
  also have "\<dots> = map (\<lambda>p. isAlive p \<and> Some (pid p) \<noteq> ?k) (playerDocs s)"
  proof -
    from writeCheckResult_map [OF w] obtain h where
      h: "playerDocs s1 = map h (playerDocs s)" "\<And>p. isAlive (h p) = isAlive p"
         "\<And>p. pid (h p) = pid p"
      by blast
    show ?thesis by (simp add: h o_def)
  qed
  finally have 4: "map isAlive (playerDocs s') =
      map (\<lambda>p. isAlive p \<and> Some (pid p) \<noteq> ?k) (playerDocs s)" .
  have 5: "set_option ?k \<subseteq> set (map pid (playerDocs s))"
    using ex by (cases ?k) auto
  have 6: "\<exists>r'. roomDoc s' = Some r'
             \<and> lastKilledPlayerId (night r') = ?k
             \<and> (case calcWinner (playersAfter ?k (playerDocs s)) of
                   Some w \<Rightarrow> status r' = ''ended'' \<and> winner r' = Some w \<and> phase r' = ''ended''
                 | None \<Rightarrow> status r' = status room \<and> winner r' = winner room
                           \<and> phase r' = ''day'' \<and> dayNumber r' = dayNumber room + 1)"
    using resolveNight_room [OF room res]
    by (cases "calcWinner (playersAfter ?k (playerDocs s))") simp_all
  from 1 2 3 4 5 6 show ?thesis by blast
qed

theorem night_resolution_kill_witness:
  "killedPlayerId (night (the (roomDoc night5B))) = Some ''p3''
   \<and> killedPlayerId ((night (the (roomDoc night5B)))\<lparr>saveTargetId := Some ''p1''\<rparr>) = Some ''p3''
   \<and> resolveNight 60000 None night5B = Done day5
   \<and> map pid (playerDocs day5) = [''p1'', ''p2'', ''p3'', ''p4'', ''p5'']
   \<and> map isAlive (playerDocs day5) = [True, True, False, True, True]
   \<and> map_option phase (roomDoc day5) = Some ''day''
   \<and> map_option dayNumber (roomDoc day5) = Some 1"
proof -
  have r: "roomDoc night5B = Some (the (roomDoc night5B))" by code_simp
  have d: "resolveNight 60000 None night5B = Done day5" by code_simp
  have e: "map (\<lambda>p. isAlive p \<and> Some (pid p) \<noteq> Some ''p3'') (playerDocs night5B)
             = [True, True, False, True, True]"
          "map pid (playerDocs night5B) = [''p1'', ''p2'', ''p3'', ''p4'', ''p5'']"
          "killTargetId (night (the (roomDoc night5B))) = Some ''p3''"
          "saveTargetId (night (the (roomDoc night5B))) = Some ''p4''"
          "map_option phase (roomDoc day5) = Some ''day''"
          "map_option dayNumber (roomDoc day5) = Some 1"
    by code_simp+
  from night_resolution_kill [OF r d] e d show ?thesis by simp
qed

subsection \<open>Vote resolution\<close>

lemma resolveVote_Done:
  assumes room: "roomDoc s = Some room" and ne: "[] \<notin> set (map pid (playerDocs s))"
  shows "resolveVote now d s = Done
     \<lparr>roomDoc = Some
        ((case calcWinner (playersAfter (eliminatedId (playerDocs s) (votes (vote room))) (playerDocs s)) of
            Some w \<Rightarrow>
              (\<lambda>r. r\<lparr>status := ''ended'', winner := Some w, phase := ''ended'',
                     phaseEndsAtMs := None,
                     vote := (vote r)\<lparr>eliminatedPlayerId :=
                                eliminatedId (playerDocs s) (votes (vote room)), resolved := True\<rparr>,
                     night := emptyNight\<rparr>)
          | None \<Rightarrow>
              (\<lambda>r. r\<lparr>phase := ''night'',
                     phaseEndsAtMs := Some (computeEndsAtMs now
                        (case d of Some d \<Rightarrow> d
                         | None \<Rightarrow> (case nightSec (settings room) of Some d \<Rightarrow> d | None \<Rightarrow> 60))),
                     night := emptyNight,
                     vote := (vote r)\<lparr>eliminatedPlayerId :=
                                eliminatedId (playerDocs s) (votes (vote room)), resolved := True\<rparr>\<rparr>)) room),
      playerDocs = map (\<lambda>p. (if Some (pid p) = eliminatedId (playerDocs s) (votes (vote room))
                              then p\<lparr>isAlive := False\<rparr> else p)\<lparr>voteSubmitted := False\<rparr>)
                       (playerDocs s)\<rparr>"
proof -
  let ?el = "eliminatedId (playerDocs s) (votes (vote room))"
  have k: "\<And>i. ?el = Some i \<Longrightarrow> i \<noteq> [] \<Longrightarrow> i \<in> set (map pid (playerDocs s))"
    using eliminatedId_alive aliveIds_subset by blast
  have tr: "\<And>p. p \<in> set (playerDocs s) \<Longrightarrow> (Some (pid p) = ?el \<and> truthy ?el) = (Some (pid p) = ?el)"
  proof -
    fix p assume "p \<in> set (playerDocs s)"
    then have "pid p \<noteq> []" using ne by force
    then show "(Some (pid p) = ?el \<and> truthy ?el) = (Some (pid p) = ?el)"
      by (cases ?el) auto
  qed
  have m: "map (\<lambda>p. (if Some (pid p) = ?el \<and> truthy ?el then p\<lparr>isAlive := False\<rparr> else p)
                       \<lparr>voteSubmitted := False\<rparr>) (playerDocs s)
         = map (\<lambda>p. (if Some (pid p) = ?el then p\<lparr>isAlive := False\<rparr> else p)
                       \<lparr>voteSubmitted := False\<rparr>) (playerDocs s)"
    using tr by (simp cong: map_cong)
  show ?thesis
    unfolding resolveVote_def Let_def
    by (simp add: room commit_resolution [OF room refl k] m)
qed

text \<open>
  Claim C3. In a room whose player ids are not empty, the eliminated player of
  \<open>resolveVote\<close> is \<open>t\<close> exactly if \<open>t\<close> has at least one vote and strictly more votes
  than every other target, counting only the votes whose voter and target are both alive
  at the tally (\<open>votesFor\<close>); on a tie at the maximum and without any valid vote there
  is none. The resolution commits, keeps every id, and a player is alive afterwards
  exactly if it was alive before and is not the eliminated player.
\<close>

theorem vote_resolution_rule:
  assumes room: "roomDoc s = Some room" and ne: "[] \<notin> set (map pid (playerDocs s))"
  shows "(\<forall>t. eliminatedId (playerDocs s) (votes (vote room)) = Some t \<longleftrightarrow>
              0 < votesFor (playerDocs s) (votes (vote room)) t
              \<and> (\<forall>t'. t' \<noteq> t \<longrightarrow> votesFor (playerDocs s) (votes (vote room)) t'
                                  < votesFor (playerDocs s) (votes (vote room)) t))
       \<and> (\<exists>s' r'. resolveVote now d s = Done s'
             \<and> map pid (playerDocs s') = map pid (playerDocs s)
             \<and> map isAlive (playerDocs s') =
                 map (\<lambda>p. isAlive p \<and> Some (pid p) \<noteq> eliminatedId (playerDocs s) (votes (vote room)))
                     (playerDocs s)
             \<and> roomDoc s' = Some r'
             \<and> eliminatedPlayerId (vote r') = eliminatedId (playerDocs s) (votes (vote room)))"
proof -
  let ?el = "eliminatedId (playerDocs s) (votes (vote room))"
  have 1: "\<forall>t. ?el = Some t \<longleftrightarrow>
              0 < votesFor (playerDocs s) (votes (vote room)) t
              \<and> (\<forall>t'. t' \<noteq> t \<longrightarrow> votesFor (playerDocs s) (votes (vote room)) t'
                                  < votesFor (playerDocs s) (votes (vote room)) t)"
    using eliminatedId_iff by blast
  note D = resolveVote_Done [OF room ne, of now d]
  have 2: "\<exists>s' r'. resolveVote now d s = Done s'
             \<and> map pid (playerDocs s') = map pid (playerDocs s)
             \<and> map isAlive (playerDocs s') = map (\<lambda>p. isAlive p \<and> Some (pid p) \<noteq> ?el) (playerDocs s)
             \<and> roomDoc s' = Some r'
             \<and> eliminatedPlayerId (vote r') = ?el"
    unfolding D
    by (cases "calcWinner (playersAfter ?el (playerDocs s))") (simp_all add: o_def)
  from 1 2 show ?thesis by blast
qed

theorem vote_resolution_rule_witness:
  "[] \<notin> set (map pid (playerDocs vote5D))
   \<and> map_option (\<lambda>r. votes (vote r)) (roomDoc vote5D)
       = Some [(''p2'', ''p1''), (''p4'', ''p1''), (''p1'', ''p2''), (''p3'', ''p2'')]
   \<and> map isAlive (playerDocs vote5D) = [True, True, False, True, True]
   \<and> votesFor (playerDocs vote5D) (votes (vote (the (roomDoc vote5D)))) ''p1'' = 2
   \<and> votesFor (playerDocs vote5D) (votes (vote (the (roomDoc vote5D)))) ''p2'' = 1
   \<and> eliminatedId (playerDocs vote5D) (votes (vote (the (roomDoc vote5D)))) = Some ''p1''
   \<and> map isAlive (playerDocs (state_of (resolveVote 165000 None vote5D)))
       = [False, True, False, True, True]"
proof -
  have r: "roomDoc vote5D = Some (the (roomDoc vote5D))" by code_simp
  have ne: "[] \<notin> set (map pid (playerDocs vote5D))" by code_simp
  have e: "map_option (\<lambda>r. votes (vote r)) (roomDoc vote5D)
       = Some [(''p2'', ''p1''), (''p4'', ''p1''), (''p1'', ''p2''), (''p3'', ''p2'')]"
    "map isAlive (playerDocs vote5D) = [True, True, False, True, True]"
    "votesFor (playerDocs vote5D) (votes (vote (the (roomDoc vote5D)))) ''p1'' = 2"
    "votesFor (playerDocs vote5D) (votes (vote (the (roomDoc vote5D)))) ''p2'' = 1"
    "eliminatedId (playerDocs vote5D) (votes (vote (the (roomDoc vote5D)))) = Some ''p1''"
    "map (\<lambda>p. isAlive p \<and> Some (pid p) \<noteq> Some ''p1'') (playerDocs vote5D)
       = [False, True, False, True, True]"
    by code_simp+
  from vote_resolution_rule [OF r ne, of 165000 None] obtain s' where
    d: "resolveVote 165000 None vote5D = Done s'"
    and al: "map isAlive (playerDocs s') =
      map (\<lambda>p. isAlive p \<and> Some (pid p)
             \<noteq> eliminatedId (playerDocs vote5D) (votes (vote (the (roomDoc vote5D)))))
          (playerDocs vote5D)"
    by blast
  have x: "map isAlive (playerDocs (state_of (resolveVote 165000 None vote5D)))
       = [False, True, False, True, True]"
    using al e(6) by (simp only: d state_of.simps e(5))
  show ?thesis
    using ne e(1) e(2) e(3) e(4) e(5) x by (intro conjI)
qed

subsection \<open>Submitting a vote\<close>





subsection \<open>Submitting twice\<close>

text \<open>
  Claim C8. A night action by an existing player whose \<open>nightSubmitted\<close> flag is set
  fails with the already-submitted error of \<open>submitNightAction\<close>, and a vote by a player
  whose \<open>voteSubmitted\<close> flag is set fails with that of \<open>submitVote\<close> (the two messages
  of the specification's \<open>ActionAlreadySubmitted\<close>). In both cases the store after the
  failure is the store before it: the flag is read before anything is written, so no kill,
  save or check target and no entry of the vote map changes.
\<close>

theorem submit_twice_rejected:
  "(getPlayer a s = Some actor \<and> nightSubmitted actor
      \<longrightarrow> submitNightAction rl a t s = Failed NightAlreadySubmitted s)
   \<and> (getPlayer a s = Some voter \<and> voteSubmitted voter
      \<longrightarrow> submitVote a t s = Failed VoteAlreadySubmitted s)"
  by (simp add: submitNightAction_def submitVote_def)

theorem submit_twice_rejected_witness:
  "map_option nightSubmitted (getPlayer ''p1'' night5B) = Some True
   \<and> map_option (\<lambda>r. killTargetId (night r)) (roomDoc night5B) = Some (Some ''p3'')
   \<and> submitNightAction ''mafia'' ''p1'' ''p5'' night5B = Failed NightAlreadySubmitted night5B
   \<and> map_option voteSubmitted (getPlayer ''p1'' vote5) = Some True
   \<and> map_option (\<lambda>r. votes (vote r)) (roomDoc vote5)
       = Some [(''p2'', ''p1''), (''p4'', ''p1''), (''p1'', ''p2'')]
   \<and> submitVote ''p1'' ''p4'' vote5 = Failed VoteAlreadySubmitted vote5"
proof -
  have n: "getPlayer ''p1'' night5B = Some (the (getPlayer ''p1'' night5B))"
    "nightSubmitted (the (getPlayer ''p1'' night5B))"
    by code_simp+
  have v: "getPlayer ''p1'' vote5 = Some (the (getPlayer ''p1'' vote5))"
    "voteSubmitted (the (getPlayer ''p1'' vote5))"
    by code_simp+
  have e: "map_option nightSubmitted (getPlayer ''p1'' night5B) = Some True"
    "map_option (\<lambda>r. killTargetId (night r)) (roomDoc night5B) = Some (Some ''p3'')"
    "map_option voteSubmitted (getPlayer ''p1'' vote5) = Some True"
    "map_option (\<lambda>r. votes (vote r)) (roomDoc vote5)
       = Some [(''p2'', ''p1''), (''p4'', ''p1''), (''p1'', ''p2'')]"
    by code_simp+
  have 1: "submitNightAction ''mafia'' ''p1'' ''p5'' night5B = Failed NightAlreadySubmitted night5B"
    using submit_twice_rejected [of "''p1''" night5B "the (getPlayer ''p1'' night5B)" "''mafia''" "''p5''"]
      n by blast
  have 2: "submitVote ''p1'' ''p4'' vote5 = Failed VoteAlreadySubmitted vote5"
    using submit_twice_rejected [of "''p1''" vote5 _ _ "''p4''" "the (getPlayer ''p1'' vote5)"]
      v by blast
  show ?thesis using e(1) e(2) 1 e(3) e(4) 2 by (intro conjI)
qed

subsection \<open>The komissar's result\<close>

text \<open>
  In the revision with the private result, a committed \<open>resolveNight\<close> with a check on
  an existing target changes \<open>lastCheckResult\<close> of the players with the id of the
  checking player only, and the room document carries no check result afterwards.
\<close>

lemma writeCheckResult_private:
  assumes w: "writeCheckResult now n players s = Done s1"
    and c: "checkTargetId n = Some ct" "checkBy n = Some cb" "ct \<noteq> []" "cb \<noteq> []"
      "find (\<lambda>p. pid p = ct) players = Some target"
  shows "playerDocs s1 = setPlayer cb (\<lambda>q. q\<lparr>lastCheckResult :=
             Some \<lparr>targetId = ct, isMafia = isMafiaRole (role target), at = now\<rparr>\<rparr>) (playerDocs s)"
    and "cb \<in> set (map pid (playerDocs s))"
  using w c by (auto simp: writeCheckResult_def updatePlayerDoc_def split: if_splits)

lemma resolveNight_check_private:
  assumes room: "roomDoc s = Some room" and res: "resolveNight now d s = Done s'"
    and c: "checkTargetId (night room) = Some ct" "checkBy (night room) = Some cb" "ct \<noteq> []" "cb \<noteq> []"
      "find (\<lambda>p. pid p = ct) (playerDocs s) = Some target"
  shows "map lastCheckResult (playerDocs s') =
           map (\<lambda>p. if pid p = cb
                     then Some \<lparr>targetId = ct, isMafia = isMafiaRole (role target), at = now\<rparr>
                     else lastCheckResult p) (playerDocs s)
       \<and> cb \<in> set (map pid (playerDocs s))
       \<and> (\<exists>r'. roomDoc s' = Some r' \<and> dayCheckResult r' = None
              \<and> checkTargetId (night r') = None \<and> checkBy (night r') = None)"
proof -
  obtain s1 where
    w: "writeCheckResult now (night room) (playerDocs s) s = Done s1"
    and ps: "playerDocs s' = map (\<lambda>p. (if Some (pid p) = killedPlayerId (night room)
                                     then p\<lparr>isAlive := False\<rparr> else p)\<lparr>nightSubmitted := False\<rparr>)
                               (playerDocs s1)"
    and ex: "\<And>i. killedPlayerId (night room) = Some i \<Longrightarrow> i \<in> set (map pid (playerDocs s))"
    and r': "\<exists>r'. roomDoc s' = Some r'
           \<and> night r' = emptyNight\<lparr>lastKilledPlayerId := killedPlayerId (night room),
                                   lastSavedPlayerId := saveTargetId (night room)\<rparr>
           \<and> dayCheckResult r' = None"
    by (rule resolveNight_DoneD [OF room res]) (rule that; (assumption | blast))
  note P = writeCheckResult_private [OF w c]
  have 1: "map lastCheckResult (playerDocs s') =
           map (\<lambda>p. if pid p = cb
                     then Some \<lparr>targetId = ct, isMafia = isMafiaRole (role target), at = now\<rparr>
                     else lastCheckResult p) (playerDocs s)"
    by (simp add: ps P(1) setPlayer_def o_def)
  have 3: "\<exists>r'. roomDoc s' = Some r' \<and> dayCheckResult r' = None
              \<and> checkTargetId (night r') = None \<and> checkBy (night r') = None"
    using r' by (auto simp: emptyNight_def)
  from 1 P(2) 3 show ?thesis by blast
qed

text \<open>
  Claim C7, on \<^verbatim>\<open>resolveNight\<close> as stored in \<^verbatim>\<open>src/firebase/roomService.ts\<close>: in
  the night in which the komissar \<open>p2\<close> checks the mafia player \<open>p1\<close>, the resolution
  writes target and verdict into the room document, which every client of the room
  receives, and into no player's private state.
\<close>

theorem roomService_resolveNight_publishes_check:
  "map_option dayCheckResult (roomDoc (state_of (resolveNight_roomService 60000 None night5B)))
     = Some (Some (''p1'', True))
   \<and> map lastCheckResult (playerDocs (state_of (resolveNight_roomService 60000 None night5B)))
     = [None, None, None, None, None]"
  by code_simp

text \<open>
  The night state of that run is one that the older revision produces itself: its own
  \<^verbatim>\<open>submitNightAction\<close>, called for the three actions on the started game, leaves the
  room document of \<open>night5B\<close>.
\<close>

lemma roomService_night5B_room:
  "roomDoc (state_of
     (andThen (andThen (submitNightAction_roomService ''mafia'' ''p1'' ''p3'' night5)
                 (submitNightAction_roomService ''doctor'' ''p3'' ''p4''))
        (submitNightAction_roomService ''komissar'' ''p2'' ''p1'')))
   = roomDoc night5B"
  by code_simp

subsection \<open>Winner, status and phase\<close>

lemma roomDoc_fold_players:
  "(\<And>x. x \<in> set ws \<Longrightarrow> \<exists>i f. x = PlayerWrite i f) \<Longrightarrow> roomDoc (fold apply_write ws s) = roomDoc s"
proof (induction ws arbitrary: s)
  case Nil
  then show ?case by simp
next
  case (Cons w ws)
  obtain i f where w: "w = PlayerWrite i f" using Cons.prems [of w] by auto
  have "\<And>x. x \<in> set ws \<Longrightarrow> \<exists>i f. x = PlayerWrite i f" using Cons.prems by simp
  then show ?case using Cons.IH w by simp
qed

lemma commit_room:
  assumes "\<And>x. x \<in> set pws \<Longrightarrow> \<exists>i f. x = PlayerWrite i f"
  shows "roomDoc (state_of (commit (pws @ [RoomWrite g]) s)) = roomDoc s
       \<or> (\<exists>r. roomDoc s = Some r \<and> roomDoc (state_of (commit (pws @ [RoomWrite g]) s)) = Some (g r))"
proof (cases "list_all (write_ok s) pws \<and> roomDoc s \<noteq> None")
  case True
  then obtain r where "roomDoc s = Some r" by auto
  then show ?thesis using True
    by (simp add: commit_def roomDoc_fold_players [OF assms])
next
  case False
  then show ?thesis by (auto simp add: commit_def)
qed

lemma markDead_players: "x \<in> set (markDead k) \<Longrightarrow> \<exists>i f. x = PlayerWrite i f"
  by (cases k) (auto split: if_splits)

lemma updatePlayerDoc_room: "roomDoc (state_of (updatePlayerDoc i f s)) = roomDoc s"
  by (simp add: updatePlayerDoc_def)

lemma writeCheckResult_room: "roomDoc (state_of (writeCheckResult now n ps s)) = roomDoc s"
  by (simp add: writeCheckResult_def updatePlayerDoc_room split: option.splits)

lemma state_of_andThen:
  "state_of (andThen x f) = (case x of Done s \<Rightarrow> state_of (f s) | Failed e s \<Rightarrow> s)"
  by (cases x) simp_all

lemma updateRoomDoc_room:
  "roomDoc (state_of (updateRoomDoc g s)) = map_option g (roomDoc s)"
  by (simp add: updateRoomDoc_def split: option.splits)

text \<open>Each operation keeps \<open>ended_consistent\<close>.\<close>

lemma commit_inv:
  assumes "\<And>x. x \<in> set pws \<Longrightarrow> \<exists>i f. x = PlayerWrite i f"
    and "roomDoc s = Some r" "ended_consistent r" "ended_consistent (g r)"
  shows "\<exists>r'. roomDoc (state_of (commit (pws @ [RoomWrite g]) s)) = Some r' \<and> ended_consistent r'"
  using commit_room [OF assms(1), where g = g and s = s] assms(2-4) by auto

lemma commit_inv2:
  assumes "\<And>x. x \<in> set pws \<Longrightarrow> \<exists>i f. x = PlayerWrite i f"
    and "\<And>x. x \<in> set pws' \<Longrightarrow> \<exists>i f. x = PlayerWrite i f"
    and "roomDoc s = Some r" "ended_consistent r" "ended_consistent (g r)"
  shows "\<exists>r'. roomDoc (state_of (commit (pws @ pws' @ [RoomWrite g]) s)) = Some r' \<and> ended_consistent r'"
proof -
  have "\<And>x. x \<in> set (pws @ pws') \<Longrightarrow> \<exists>i f. x = PlayerWrite i f"
    using assms(1,2) by auto
  from commit_inv [where pws = "pws @ pws'" and g = g and s = s and r = r, OF this assms(3-5)]
  show ?thesis by simp
qed

lemma map_players: "x \<in> set (map (\<lambda>p. PlayerWrite (a p) (b p)) ps) \<Longrightarrow> \<exists>i f. x = PlayerWrite i f"
  by auto

lemma inv_resolveNight:
  assumes "roomDoc s = Some r" "ended_consistent r"
  shows "\<exists>r'. roomDoc (state_of (resolveNight now d s)) = Some r' \<and> ended_consistent r'"
proof (cases "writeCheckResult now (night r) (playerDocs s) s")
  case (Done s1)
  have r1: "roomDoc s1 = Some r"
    using writeCheckResult_room [of now "night r" "playerDocs s" s] Done assms(1) by simp
  show ?thesis
    unfolding resolveNight_def Let_def
    apply (simp only: assms(1) option.case Done andThen.simps)
    apply (rule commit_inv2 [OF markDead_players map_players r1 assms(2)], assumption, assumption)
    apply (cases "calcWinner (playersAfter (killedPlayerId (night r)) (playerDocs s))")
    using assms(2) apply (auto simp: ended_consistent_def)
    done
next
  case (Failed e s1)
  then have "s1 = s" using writeCheckResult_Failed by blast
  then show ?thesis using Failed assms by (simp add: resolveNight_def Let_def)
qed

lemma inv_resolveVote:
  assumes "roomDoc s = Some r" "ended_consistent r"
  shows "\<exists>r'. roomDoc (state_of (resolveVote now d s)) = Some r' \<and> ended_consistent r'"
  unfolding resolveVote_def Let_def
  apply (simp only: assms(1) option.case)
  apply (rule commit_inv2 [OF markDead_players map_players assms], assumption, assumption)
  apply (cases "calcWinner (playersAfter (eliminatedId (playerDocs s) (votes (vote r))) (playerDocs s))")
  using assms(2) apply (auto simp: ended_consistent_def)
  done

lemma inv_startVote:
  assumes "roomDoc s = Some r" "ended_consistent r"
  shows "\<exists>r'. roomDoc (state_of (startVote now d s)) = Some r' \<and> ended_consistent r'"
  unfolding startVote_def Let_def
  apply (rule commit_inv [OF map_players assms], assumption)
  using assms(2) apply (auto simp: ended_consistent_def)
  done

lemma zip_players:
  "x \<in> set (map (\<lambda>(p, r). PlayerWrite (a p) (b r)) zs) \<Longrightarrow> \<exists>i f. x = PlayerWrite i f"
  by auto

lemma inv_startGame:
  assumes "roomDoc s = Some r" "ended_consistent r"
  shows "\<exists>r'. roomDoc (state_of (startGame now d r1 r2 s)) = Some r' \<and> ended_consistent r'"
proof (cases "length (playerDocs s) < 4")
  case True
  then show ?thesis using assms by (simp add: startGame_def Let_def)
next
  case False
  show ?thesis
    unfolding startGame_def Let_def
    apply (simp only: False if_False)
    apply (rule commit_inv [OF zip_players assms], assumption)
    apply (simp add: ended_consistent_def)
    done
qed

lemma inv_night_update:
  "ended_consistent r \<Longrightarrow> ended_consistent (r\<lparr>night := n\<rparr>)"
  by (simp add: ended_consistent_def)

lemma inv_submitNightAction:
  assumes "roomDoc s = Some r" "ended_consistent r"
  shows "\<exists>r'. roomDoc (state_of (submitNightAction rl a t s)) = Some r' \<and> ended_consistent r'"
  using assms
  by (auto simp: submitNightAction_def state_of_andThen updateRoomDoc_def updatePlayerDoc_def
      ended_consistent_def split: option.splits outcome.splits if_splits)

lemma inv_submitVote:
  assumes "roomDoc s = Some r" "ended_consistent r"
  shows "\<exists>r'. roomDoc (state_of (submitVote v t s)) = Some r' \<and> ended_consistent r'"
  using assms
  by (auto simp: submitVote_def state_of_andThen updateRoomDoc_def updatePlayerDoc_def
      ended_consistent_def split: option.splits outcome.splits if_splits)

lemma inv_run_op:
  assumes "roomDoc s = Some r" "ended_consistent r"
  shows "\<exists>r'. roomDoc (state_of (run_op x s)) = Some r' \<and> ended_consistent r'"
proof (cases x)
  case (Join i nick)
  then show ?thesis using assms by (simp add: joinRoom_def)
next
  case (SetReady i b)
  then show ?thesis using assms by (simp add: updatePlayerReady_def updatePlayerDoc_def)
next
  case (Kick i)
  then show ?thesis using assms by (simp add: kickPlayer_def updatePlayerDoc_def)
next
  case (SetConnection i b)
  then show ?thesis using assms by (simp add: setPlayerConnection_def updatePlayerDoc_def)
next
  case (UpdateSettings st)
  then show ?thesis using assms
    by (simp add: updateRoomSettings_def updateRoomDoc_def ended_consistent_def)
next
  case (StartGame now d r1 r2)
  then show ?thesis using inv_startGame [OF assms] by simp
next
  case (SubmitNight rl a t)
  then show ?thesis using inv_submitNightAction [OF assms] by simp
next
  case (ResolveNight now d)
  then show ?thesis using inv_resolveNight [OF assms] by simp
next
  case (StartVote now d)
  then show ?thesis using inv_startVote [OF assms] by simp
next
  case (SubmitVote v t)
  then show ?thesis using inv_submitVote [OF assms] by simp
next
  case (ResolveVote now d)
  then show ?thesis using inv_resolveVote [OF assms] by simp
qed

lemma inv_run:
  "roomDoc s = Some r \<Longrightarrow> ended_consistent r
   \<Longrightarrow> \<exists>r'. roomDoc (run ops s) = Some r' \<and> ended_consistent r'"
proof (induction ops arbitrary: s r)
  case Nil
  then show ?case by (simp add: run_def)
next
  case (Cons x ops)
  from inv_run_op [OF Cons.prems, of x] obtain r1 where
    "roomDoc (state_of (run_op x s)) = Some r1" "ended_consistent r1" by blast
  from Cons.IH [OF this] show ?case by (simp add: run_def)
qed

lemma inv_createRoom:
  "\<exists>r. roomDoc (createRoom i nick) = Some r \<and> ended_consistent r"
  by (simp add: createRoom_def ended_consistent_def)

lemma tick_not_playing:
  "view c = Some v \<Longrightarrow> status v \<noteq> ''playing'' \<Longrightarrow> tick now c s = (c, Done s)"
  by (simp add: tick_def)

text \<open>
  Claim C9, amended. In every state that a sequence of operations reaches from a created
  room, a winner is recorded exactly when the status is \<open>ended\<close>, and a room of phase
  \<open>ended\<close> has status \<open>ended\<close> and no deadline; the host's timer does nothing on a
  snapshot whose status is not \<open>playing\<close>.
\<close>

theorem winner_iff_ended:
  "(\<exists>r. roomDoc (run ops (createRoom i nick)) = Some r
       \<and> ((winner r \<noteq> None) = (status r = ''ended''))
       \<and> (phase r = ''ended'' \<longrightarrow> status r = ''ended'' \<and> phaseEndsAtMs r = None))
   \<and> (\<forall>now c s v. view c = Some v \<and> status v \<noteq> ''playing'' \<longrightarrow> tick now c s = (c, Done s))"
proof -
  obtain r0 where "roomDoc (createRoom i nick) = Some r0" "ended_consistent r0"
    using inv_createRoom by blast
  from inv_run [OF this, of ops] obtain r where
    r: "roomDoc (run ops (createRoom i nick)) = Some r" and e: "ended_consistent r" by blast
  have 1: "\<exists>r. roomDoc (run ops (createRoom i nick)) = Some r
       \<and> ((winner r \<noteq> None) = (status r = ''ended''))
       \<and> (phase r = ''ended'' \<longrightarrow> status r = ''ended'' \<and> phaseEndsAtMs r = None)"
    using r e by (auto simp: ended_consistent_def)
  have 2: "\<forall>now c s v. view c = Some v \<and> status v \<noteq> ''playing'' \<longrightarrow> tick now c s = (c, Done s)"
    using tick_not_playing by blast
  from 1 2 show ?thesis by blast
qed

theorem winner_iff_ended_witness:
  "map_option status (roomDoc ended4) = Some ''ended''
   \<and> map_option winner (roomDoc ended4) = Some (Some ''mafia'')
   \<and> map_option phaseEndsAtMs (roomDoc ended4) = Some None
   \<and> tick 300000 \<lparr>playerId = Some ''p1'', view = roomDoc ended4, autoLock = None\<rparr> ended4
       = (\<lparr>playerId = Some ''p1'', view = roomDoc ended4, autoLock = None\<rparr>, Done ended4)"
proof -
  let ?ops = "[Join ''p2'' ''B'', Join ''p3'' ''C'', Join ''p4'' ''D'',
                 SetReady ''p1'' True, SetReady ''p2'' True, SetReady ''p3'' True,
                 SetReady ''p4'' True,
                 StartGame 0 None rnd0 rnd0,
                 SubmitNight ''mafia'' ''p1'' ''p4'', ResolveNight 60000 None,
                 StartVote 120000 None, SubmitVote ''p1'' ''p2'', ResolveVote 165000 None]"
  let ?c = "\<lparr>playerId = Some ''p1'', view = roomDoc ended4, autoLock = None\<rparr>"
  note T = winner_iff_ended [of ?ops "''p1''" "''A''", folded ended4_def]
  from T obtain r where r: "roomDoc ended4 = Some r"
    and w: "(winner r \<noteq> None) = (status r = ''ended'')"
    and p: "phase r = ''ended'' \<longrightarrow> status r = ''ended'' \<and> phaseEndsAtMs r = None"
    by blast
  have ph: "map_option phase (roomDoc ended4) = Some ''ended''" by code_simp
  have wi: "map_option winner (roomDoc ended4) = Some (Some ''mafia'')" by code_simp
  have 1: "map_option status (roomDoc ended4) = Some ''ended''"
    using r w p ph by simp
  have 3: "map_option phaseEndsAtMs (roomDoc ended4) = Some None"
    using r p ph by simp
  have v: "view ?c = Some r" using r by simp
  have np: "status r \<noteq> ''playing''" using 1 r by simp
  from T have "\<forall>now c s v. view c = Some v \<and> status v \<noteq> ''playing'' \<longrightarrow> tick now c s = (c, Done s)"
    by blast
  then have 4: "tick 300000 ?c ended4 = (?c, Done ended4)" using v np by blast
  show ?thesis using 1 wi 3 4 by (intro conjI)
qed

text \<open>
  Claim C9, as stated: once a winner is set, no operation changes the phase again and the
  winner is set only once. In the four-player game that the mafia has won, \<open>startVote\<close>
  moves the ended room to phase \<open>vote\<close>, and a further night action with its resolution
  replaces the winner by \<open>town\<close>: no operation checks the status.
\<close>

theorem ended_not_terminal_counterexample:
  "map_option winner (roomDoc ended4) = Some (Some ''mafia'')
   \<and> map_option phase (roomDoc ended4) = Some ''ended''
   \<and> map_option phase (roomDoc (run [StartVote 300000 None] ended4)) = Some ''vote''
   \<and> map_option winner
        (roomDoc (run [SubmitNight ''mafia'' ''p1'' ''p1'', ResolveNight 300000 None] ended4))
       = Some (Some ''town'')"
  by code_simp

subsection \<open>The timer\<close>

lemma isHost_lock: "isHost (c\<lparr>autoLock := l\<rparr>) = isHost c"
  by (simp add: isHost_def)

text \<open>
  Claim C1, amended. When the tick of a host client whose snapshot is a playing room with
  an expired deadline returns without error, the client's lock holds the phase and
  deadline of the snapshot; if the lock was free, the store is the result of the one
  resolution of that phase (\<open>resolveNight\<close>, \<open>startVote\<close> or \<open>resolveVote\<close>), otherwise
  the store is unchanged; and every later tick of this client on the same snapshot, at any
  time and on any store, is a no-op.
\<close>

theorem tick_once_per_client:
  assumes h: "isHost c" and v: "view c = Some room" and st: "status room = ''playing''"
    and en: "phaseEndsAtMs room = Some ends" and nz: "ends \<noteq> 0" and ex: "ends \<le> now"
    and t: "tick now c s = (c', Done s')"
  shows "autoLock c' = Some (phase room, ends) \<and> view c' = view c \<and> playerId c' = playerId c
       \<and> (autoLock c = Some (phase room, ends) \<longrightarrow> s' = s)
       \<and> (autoLock c \<noteq> Some (phase room, ends) \<and> phase room = ''night'' \<longrightarrow>
            resolveNight now (Some (case daySec (settings room) of Some d \<Rightarrow> d | None \<Rightarrow> 60)) s
              = Done s')
       \<and> (autoLock c \<noteq> Some (phase room, ends) \<and> phase room = ''day'' \<longrightarrow>
            startVote now (Some (case voteSec (settings room) of Some d \<Rightarrow> d | None \<Rightarrow> 45)) s
              = Done s')
       \<and> (autoLock c \<noteq> Some (phase room, ends) \<and> phase room = ''vote'' \<longrightarrow>
            resolveVote now (Some (case nightSec (settings room) of Some d \<Rightarrow> d | None \<Rightarrow> 60)) s
              = Done s')
       \<and> (\<forall>now' s''. tick now' c' s'' = (c', Done s''))"
proof (cases "autoLock c = Some (phase room, ends)")
  case True
  then have "c' = c" "s' = s" using t h v st en nz ex by (simp_all add: tick_def)
  then show ?thesis using True h v st en nz by (simp add: tick_def)
next
  case False
  define res where "res =
     (if phase room = ''night''
      then resolveNight now (Some (case daySec (settings room) of Some d \<Rightarrow> d | None \<Rightarrow> 60)) s
      else if phase room = ''day''
      then startVote now (Some (case voteSec (settings room) of Some d \<Rightarrow> d | None \<Rightarrow> 45)) s
      else if phase room = ''vote''
      then resolveVote now (Some (case nightSec (settings room) of Some d \<Rightarrow> d | None \<Rightarrow> 60)) s
      else Done s)"
  have tk: "tick now c s = (case res of Done s' \<Rightarrow> (c\<lparr>autoLock := Some (phase room, ends)\<rparr>, Done s')
                          | Failed e s' \<Rightarrow> (c\<lparr>autoLock := None\<rparr>, Failed e s'))"
  proof (cases res)
    case (Done x)
    then show ?thesis
      using False h v st en nz ex by (simp add: tick_def Let_def res_def [symmetric])
  next
    case (Failed e x)
    then show ?thesis
      using False h v st en nz ex by (simp add: tick_def Let_def res_def [symmetric])
  qed
  then have res: "res = Done s'" and c': "c' = c\<lparr>autoLock := Some (phase room, ends)\<rparr>"
    using t by (cases res; simp)+
  have again: "\<forall>now' s''. tick now' c' s'' = (c', Done s'')"
    using h v st en nz by (simp add: c' tick_def isHost_lock)
  show ?thesis using res c' again False by (auto simp: res_def split: if_splits)
qed

theorem tick_once_per_client_witness:
  "isHost tabA \<and> autoLock tabA = None
   \<and> map_option (\<lambda>r. (status r, phase r, phaseEndsAtMs r)) (view tabA)
       = Some (''playing'', ''night'', Some 60000)
   \<and> tick 60000 tabA night5B = (tabA\<lparr>autoLock := Some (''night'', 60000)\<rparr>, Done day5)
   \<and> tick 61000 (tabA\<lparr>autoLock := Some (''night'', 60000)\<rparr>) day5
       = (tabA\<lparr>autoLock := Some (''night'', 60000)\<rparr>, Done day5)"
proof -
  have h: "isHost tabA" by code_simp
  have v: "view tabA = Some (the (roomDoc night5B))" by code_simp
  have st: "status (the (roomDoc night5B)) = ''playing''" by code_simp
  have en: "phaseEndsAtMs (the (roomDoc night5B)) = Some 60000" by code_simp
  have t: "tick 60000 tabA night5B = (tabA\<lparr>autoLock := Some (''night'', 60000)\<rparr>, Done day5)"
    by code_simp
  have e: "autoLock tabA = None"
    "map_option (\<lambda>r. (status r, phase r, phaseEndsAtMs r)) (view tabA)
       = Some (''playing'', ''night'', Some 60000)"
    by code_simp+
  have ph: "phase (the (roomDoc night5B)) = ''night''" by code_simp
  from tick_once_per_client [OF h v st en _ _ t]
  have "\<forall>now' s''. tick now' (tabA\<lparr>autoLock := Some (''night'', 60000)\<rparr>) s''
          = (tabA\<lparr>autoLock := Some (''night'', 60000)\<rparr>, Done s'')"
    by (simp add: ph)
  then have 5: "tick 61000 (tabA\<lparr>autoLock := Some (''night'', 60000)\<rparr>) day5
       = (tabA\<lparr>autoLock := Some (''night'', 60000)\<rparr>, Done day5)"
    by blast
  show ?thesis using h e(1) e(2) t 5 by (intro conjI)
qed

text \<open>
  Claim C1, as stated: a second advance-if-expired for the same phase and deadline, run on
  the state the first produced, changes nothing. The lock is the client's own and the
  resolution reads neither phase nor deadline: a second tab of the owner that still holds
  the snapshot of the night resolves again, and the day number goes from 1 to 2 and the
  deadline moves.
\<close>

theorem second_tab_resolves_again_counterexample:
  "isHost tabA \<and> isHost tabB \<and> view tabB = view tabA
   \<and> map_option (\<lambda>r. (status r, phase r, phaseEndsAtMs r)) (view tabA)
       = Some (''playing'', ''night'', Some 60000)
   \<and> map_option dayNumber (roomDoc night5B) = Some 0
   \<and> map_option (\<lambda>r. (phase r, dayNumber r, phaseEndsAtMs r))
        (roomDoc (state_of (snd (tick 60000 tabA night5B))))
       = Some (''day'', 1, Some 120000)
   \<and> map_option (\<lambda>r. (phase r, dayNumber r, phaseEndsAtMs r))
        (roomDoc (state_of (snd (tick 61000 tabB (state_of (snd (tick 60000 tabA night5B)))))))
       = Some (''day'', 2, Some 121000)"
  by code_simp

subsection \<open>Roles assigned at the start\<close>

lemma fold_assign:
  assumes F: "\<And>r q. pid (F r q) = pid q"
  shows "distinct (map pid qs) \<Longrightarrow> length qs = length rs \<Longrightarrow>
    fold apply_write (map (\<lambda>(p, r). PlayerWrite (pid p) (F r)) (zip qs rs)) s =
    s\<lparr>playerDocs := map (\<lambda>p. case map_of (zip (map pid qs) rs) (pid p) of
                               Some r \<Rightarrow> F r p | None \<Rightarrow> p) (playerDocs s)\<rparr>"
proof (induction qs rs arbitrary: s rule: list_induct2')
  case 1
  then show ?case by simp
next
  case (2 x xs)
  then show ?case by simp
next
  case (3 y ys)
  then show ?case by simp
next
  case (4 q qs r rs)
  have nq: "pid q \<notin> set (map pid qs)" using "4.prems" by simp
  have none: "map_of (zip (map pid qs) rs) (pid q) = None"
    using nq by (metis map_of_zip_is_None length_map "4.prems"(2) length_Cons nat.inject)
  have IH: "\<And>s. fold apply_write (map (\<lambda>(p, r). PlayerWrite (pid p) (F r)) (zip qs rs)) s =
    s\<lparr>playerDocs := map (\<lambda>p. case map_of (zip (map pid qs) rs) (pid p) of
                               Some r \<Rightarrow> F r p | None \<Rightarrow> p) (playerDocs s)\<rparr>"
    using "4.IH" "4.prems" by simp
  show ?case
    by (simp add: IH setPlayer_def o_def F none cong: map_cong)
qed

lemma map_the_map_of_zip:
  "distinct ks \<Longrightarrow> length ks = length rs \<Longrightarrow> map (\<lambda>k. the (map_of (zip ks rs) k)) ks = rs"
proof (induction ks rs rule: list_induct2')
  case (4 k ks r rs)
  then have "map (\<lambda>x. the (map_of (zip ks rs) x)) ks = rs" by simp
  moreover have "map (\<lambda>x. the (if x = k then Some r else map_of (zip ks rs) x)) ks
               = map (\<lambda>x. the (map_of (zip ks rs) x)) ks"
    using "4.prems"(1) by (auto cong: map_cong)
  ultimately show ?case by (simp add: fun_upd_def)
qed simp_all

lemma startGame_roles:
  assumes room: "roomDoc s = Some r" and di: "distinct (map pid (playerDocs s))"
    and n: "4 \<le> length (playerDocs s)"
  shows "\<exists>s'. startGame now d r1 r2 s = Done s'
           \<and> map pid (playerDocs s') = map pid (playerDocs s)
           \<and> mset (map role (playerDocs s')) = mset (buildRoles r1 (length (playerDocs s)))
           \<and> map isAlive (playerDocs s') = map (\<lambda>p. True) (playerDocs s)"
proof -
  define ps where "ps = playerDocs s"
  define qs where "qs = shuffle r2 ps"
  define rs where "rs = buildRoles r1 (length ps)"
  define F :: "string \<Rightarrow> player \<Rightarrow> player" where "F = (\<lambda>r q. q\<lparr>role := r, isAlive := True, isReady := False, isKicked := False,
                                nightSubmitted := False, voteSubmitted := False,
                                lastCheckResult := None\<rparr>)"
  define M where "M = map_of (zip (map pid qs) rs)"
  have mq: "mset (map pid qs) = mset (map pid ps)" by (simp add: qs_def mset_shuffle)
  have dq: "distinct (map pid qs)"
    using mq di by (metis mset_eq_imp_distinct_iff ps_def)
  have sq: "set (map pid qs) = set (map pid ps)" using mq by (rule mset_eq_setD)
  have lq: "length qs = length ps" by (simp add: qs_def length_shuffle)
  have lr: "length rs = length ps" using n by (simp add: rs_def length_buildRoles ps_def)
  have Fp: "\<And>r q. pid (F r q) = pid q" by (simp add: F_def)
  have ok: "list_all (write_ok s) (map (\<lambda>(p, r). PlayerWrite (pid p) (F r)) (zip qs rs))"
  proof -
    have "\<And>a. a \<in> set qs \<Longrightarrow> pid a \<in> pid ` set (playerDocs s)"
    proof -
      fix a assume "a \<in> set qs"
      then have "pid a \<in> set (map pid qs)" by simp
      then show "pid a \<in> pid ` set (playerDocs s)" using sq by (simp add: ps_def)
    qed
    then show ?thesis by (auto simp: list_all_iff dest!: set_zip_leftD)
  qed
  have fd: "fold apply_write (map (\<lambda>(p, r). PlayerWrite (pid p) (F r)) (zip qs rs)) s =
    s\<lparr>playerDocs := map (\<lambda>p. case M (pid p) of Some r \<Rightarrow> F r p | None \<Rightarrow> p) ps\<rparr>"
    unfolding M_def ps_def by (rule fold_assign [OF Fp dq]) (simp add: lq lr)
  have dom: "\<And>p. p \<in> set ps \<Longrightarrow> \<exists>r. M (pid p) = Some r"
  proof -
    fix p assume "p \<in> set ps"
    then have "pid p \<in> set (map pid qs)" using sq by simp
    then have "M (pid p) \<noteq> None"
      unfolding M_def using lq lr by (metis map_of_zip_is_None length_map)
    then show "\<exists>r. M (pid p) = Some r" by auto
  qed
  define s' where "s' = fold apply_write
     (map (\<lambda>(p, r). PlayerWrite (pid p) (F r)) (zip qs rs)
      @ [RoomWrite (\<lambda>r. r\<lparr>status := ''playing'', phase := ''night'',
                       dayNumber := 0, night := emptyNight, dayCheckResult := None,
                       vote := emptyVote, winner := None,
                       phaseEndsAtMs := Some (computeEndsAtMs now
                          (case d of Some d \<Rightarrow> d
                           | None \<Rightarrow> (case roomDoc s of None \<Rightarrow> 60
                                       | Some room \<Rightarrow> (case nightSec (settings room) of
                                                         Some d \<Rightarrow> d | None \<Rightarrow> 60))))\<rparr>)]) s"
  have dn: "startGame now d r1 r2 s = Done s'"
    using n ok room
    by (simp add: startGame_def Let_def commit_def s'_def F_def qs_def rs_def ps_def)
  have pd: "playerDocs s' = map (\<lambda>p. case M (pid p) of Some r \<Rightarrow> F r p | None \<Rightarrow> p) ps"
    by (simp add: s'_def fd)
  have 1: "map pid (playerDocs s') = map pid ps"
    by (simp add: pd o_def Fp split: option.splits cong: map_cong)
  have rl: "map role (playerDocs s') = map (\<lambda>p. the (M (pid p))) ps"
    unfolding pd map_map o_def
  proof (rule map_cong [OF refl])
    fix p assume "p \<in> set ps"
    then obtain r where "M (pid p) = Some r" using dom by blast
    then show "role (case M (pid p) of None \<Rightarrow> p | Some r \<Rightarrow> F r p) = the (M (pid p))"
      by (simp add: F_def)
  qed
  have "mset (map role (playerDocs s')) = mset (map (\<lambda>k. the (M k)) (map pid ps))"
    by (simp only: rl map_map o_def)
  also have "\<dots> = image_mset (\<lambda>k. the (M k)) (mset (map pid ps))" by (simp only: mset_map)
  also have "\<dots> = image_mset (\<lambda>k. the (M k)) (mset (map pid qs))" by (simp only: mq)
  also have "\<dots> = mset (map (\<lambda>k. the (M k)) (map pid qs))" by (simp only: mset_map)
  also have "\<dots> = mset rs"
  proof -
    have "length (map pid qs) = length rs" using lq lr by simp
    from map_the_map_of_zip [OF dq this] show ?thesis by (simp only: M_def)
  qed
  finally have 2: "mset (map role (playerDocs s')) = mset rs" .
  have 3: "map isAlive (playerDocs s') = map (\<lambda>p. True) ps"
    unfolding pd map_map o_def
  proof (rule map_cong [OF refl])
    fix p assume "p \<in> set ps"
    then obtain r where "M (pid p) = Some r" using dom by blast
    then show "isAlive (case M (pid p) of None \<Rightarrow> p | Some r \<Rightarrow> F r p) = True"
      by (simp add: F_def)
  qed
  show ?thesis using dn 1 2 3 by (auto simp: ps_def rs_def)
qed

text \<open>
  Claim C5, as stated: with nine players the assigned roles are 2 mafia, 1 don,
  1 komissar, 1 doctor and 4 citizen. The code gives \<open>mafiaCount = 3\<close> at nine players
  and adds the don to them, so neither the role list nor the roles that \<open>startGame\<close>
  assigns in the nine-player lobby form that multiset.
\<close>

theorem nine_players_two_mafia_counterexample:
  "length (playerDocs lobby9) = 9
   \<and> mset (buildRoles rnd0 9) \<noteq>
     {#''mafia'', ''mafia'', ''don'', ''komissar'', ''doctor'',
       ''citizen'', ''citizen'', ''citizen'', ''citizen''#}
   \<and> mset (map role (playerDocs (state_of (startGame 0 None rnd0 rnd0 lobby9)))) \<noteq>
     {#''mafia'', ''mafia'', ''don'', ''komissar'', ''doctor'',
       ''citizen'', ''citizen'', ''citizen'', ''citizen''#}"
proof -
  have 1: "length (playerDocs lobby9) = 9" by code_simp
  have 2: "mset (buildRoles rnd0 9) \<noteq>
     {#''mafia'', ''mafia'', ''don'', ''komissar'', ''doctor'',
       ''citizen'', ''citizen'', ''citizen'', ''citizen''#}"
  proof
    assume "mset (buildRoles rnd0 9) =
       {#''mafia'', ''mafia'', ''don'', ''komissar'', ''doctor'',
         ''citizen'', ''citizen'', ''citizen'', ''citizen''#}"
    then have "count (mset (role_list 9)) ''mafia'' = 2"
      by (simp add: mset_buildRoles)
    then show False
      by (simp add: role_list_eq mafiaCount_cases)
  qed
  have r: "map role (playerDocs (state_of (startGame 0 None rnd0 rnd0 lobby9)))
      = [''mafia'', ''mafia'', ''mafia'', ''don'', ''komissar'', ''doctor'',
         ''citizen'', ''citizen'', ''citizen'']"
    by code_simp
  have 3: "mset (map role (playerDocs (state_of (startGame 0 None rnd0 rnd0 lobby9)))) \<noteq>
     {#''mafia'', ''mafia'', ''don'', ''komissar'', ''doctor'',
       ''citizen'', ''citizen'', ''citizen'', ''citizen''#}"
  proof
    assume "mset (map role (playerDocs (state_of (startGame 0 None rnd0 rnd0 lobby9)))) =
     {#''mafia'', ''mafia'', ''don'', ''komissar'', ''doctor'',
       ''citizen'', ''citizen'', ''citizen'', ''citizen''#}"
    then have "count (mset [''mafia'', ''mafia'', ''mafia'', ''don'', ''komissar'', ''doctor'',
         ''citizen'', ''citizen'', ''citizen'']) ''mafia'' = 2"
      by (simp only: r) simp
    then show False by simp
  qed
  show ?thesis using 1 2 3 by (intro conjI)
qed

text \<open>
  Claim C5, amended: when a game starts with exactly nine players (a room document and
  nine player documents of distinct ids), \<open>startGame\<close> commits, keeps the ids, and the
  assigned roles are 3 mafia, 1 don, 1 komissar, 1 doctor and 3 citizen, whatever the two
  shuffles draw; this is the multiset of the role list of \<open>buildRoles\<close> for nine.
\<close>

theorem nine_players_roles:
  assumes "roomDoc s = Some r" and "distinct (map pid (playerDocs s))"
    and "length (playerDocs s) = 9"
  shows "mset (buildRoles r1 9) =
           {#''mafia'', ''mafia'', ''mafia'', ''don'', ''komissar'', ''doctor'',
             ''citizen'', ''citizen'', ''citizen''#}
       \<and> (\<exists>s'. startGame now d r1 r2 s = Done s'
              \<and> map pid (playerDocs s') = map pid (playerDocs s)
              \<and> mset (map role (playerDocs s')) =
                  {#''mafia'', ''mafia'', ''mafia'', ''don'', ''komissar'', ''doctor'',
                    ''citizen'', ''citizen'', ''citizen''#})"
proof -
  have b: "mset (buildRoles r1 9) =
           {#''mafia'', ''mafia'', ''mafia'', ''don'', ''komissar'', ''doctor'',
             ''citizen'', ''citizen'', ''citizen''#}"
    by (simp add: mset_buildRoles role_list_eq mafiaCount_cases numeral_eq_Suc)
  have "4 \<le> length (playerDocs s)" using assms(3) by simp
  from startGame_roles [OF assms(1,2) this, of now d r1 r2] assms(3) b
  show ?thesis by auto
qed

theorem nine_players_roles_witness:
  "distinct (map pid (playerDocs lobby9)) \<and> length (playerDocs lobby9) = 9
   \<and> mset (map role (playerDocs (state_of (startGame 0 None rnd0 rnd0 lobby9)))) =
        {#''mafia'', ''mafia'', ''mafia'', ''don'', ''komissar'', ''doctor'',
          ''citizen'', ''citizen'', ''citizen''#}"
proof -
  have r: "roomDoc lobby9 = Some (the (roomDoc lobby9))" by code_simp
  have d: "distinct (map pid (playerDocs lobby9))" by code_simp
  have l: "length (playerDocs lobby9) = 9" by code_simp
  from nine_players_roles [OF r d l, of rnd0 0 None rnd0] obtain s' where
    "startGame 0 None rnd0 rnd0 lobby9 = Done s'"
    "mset (map role (playerDocs s')) =
        {#''mafia'', ''mafia'', ''mafia'', ''don'', ''komissar'', ''doctor'',
          ''citizen'', ''citizen'', ''citizen''#}"
    by blast
  then have "mset (map role (playerDocs (state_of (startGame 0 None rnd0 rnd0 lobby9)))) =
        {#''mafia'', ''mafia'', ''mafia'', ''don'', ''komissar'', ''doctor'',
          ''citizen'', ''citizen'', ''citizen''#}"
    by simp
  then show ?thesis using d l by (intro conjI)
qed

text \<open>
  \<open>resolveNight\<close> commits whenever the room exists, the checking player of an applicable
  check exists and the killed player exists.
\<close>

lemma resolveNight_commits:
  assumes room: "roomDoc s = Some room"
    and chk: "\<And>ct cb target. checkTargetId (night room) = Some ct \<Longrightarrow> checkBy (night room) = Some cb
        \<Longrightarrow> ct \<noteq> [] \<Longrightarrow> cb \<noteq> [] \<Longrightarrow> find (\<lambda>p. pid p = ct) (playerDocs s) = Some target
        \<Longrightarrow> cb \<in> set (map pid (playerDocs s))"
    and kill: "\<And>i. killedPlayerId (night room) = Some i \<Longrightarrow> i \<in> set (map pid (playerDocs s))"
  shows "\<exists>s'. resolveNight now d s = Done s'"
proof -
  have "\<exists>s1. writeCheckResult now (night room) (playerDocs s) s = Done s1"
  proof (cases "checkTargetId (night room)")
    case None
    then show ?thesis by (simp add: writeCheckResult_def)
  next
    case ct: (Some ct)
    show ?thesis
    proof (cases "checkBy (night room)")
      case None
      then show ?thesis using ct by (simp add: writeCheckResult_def)
    next
      case cb: (Some cb)
      show ?thesis
      proof (cases "find (\<lambda>p. pid p = ct) (playerDocs s)")
        case None
        then show ?thesis using ct cb by (simp add: writeCheckResult_def)
      next
        case (Some target)
        show ?thesis
        proof (cases "ct \<noteq> [] \<and> cb \<noteq> []")
          case True
          then have "cb \<in> set (map pid (playerDocs s))" using chk [OF ct cb _ _ Some] by simp
          then show ?thesis using ct cb Some True
            by (simp add: writeCheckResult_def updatePlayerDoc_def)
        next
          case False
          then show ?thesis using ct cb by (auto simp: writeCheckResult_def)
        qed
      qed
    qed
  qed
  then obtain s1 where w: "writeCheckResult now (night room) (playerDocs s) s = Done s1" ..
  have r1: "roomDoc s1 = Some room" using writeCheckResult_Done(1) [OF w] room by simp
  have ids: "map pid (playerDocs s1) = map pid (playerDocs s)"
    by (rule writeCheckResult_Done(2) [OF w])
  have k: "\<And>i. killedPlayerId (night room) = Some i \<Longrightarrow> i \<noteq> [] \<Longrightarrow> i \<in> set (map pid (playerDocs s))"
    using kill by simp
  show ?thesis
    unfolding resolveNight_def Let_def
    by (simp add: room w commit_resolution [OF r1 ids k])
qed

end
